theory Spec2Isabelle
  imports Complex_Main "HOL-Library.Log_Nat"
begin

section \<open>InvoiceAI front end: view state of App.jsx\<close>

text \<open>
  The program is a React single-page application. Every \<open>useState\<close> cell becomes a field
  of a state record, every event handler a function from the state to the new state and
  the list of effects it performs (timers armed, network requests, console output), and
  every callback that runs later (a timer, the continuation of an \<open>await\<close>) a function of
  its own that is applied when the pending task fires.
\<close>

subsection \<open>Numbers\<close>

text \<open>
  A JavaScript number is an IEEE 754 double. The finite doubles are embedded in the reals,
  and \<open>+\<close> and \<open>*\<close> on them are the exact operation followed by \<open>fl\<close>, the rounding to the
  nearest double with ties to the even significand: 53 significant bits, the least
  exponent of a normal number being \<open>-1022\<close>, below which the spacing stays \<open>2 ^ -1074\<close>.
  Results of magnitude \<open>2 ^ 1024\<close> and above, which JavaScript turns into \<open>Infinity\<close>, are
  outside the model; no number of this program comes near them.
\<close>

text \<open>\<open>ilog2 x\<close> is the integer part of the binary logarithm of a positive \<open>x\<close>.\<close>

definition ilog2 :: "real \<Rightarrow> int" where
  "ilog2 x = (if 1 \<le> x then bitlen \<lfloor>x\<rfloor> - 1 else - bitlen (\<lceil>1 / x\<rceil> - 1))"

definition round_even :: "real \<Rightarrow> int" where
  "round_even x =
     (let f = \<lfloor>x\<rfloor>; d = x - of_int f
      in if d < 1/2 then f else if 1/2 < d then f + 1 else if even f then f else f + 1)"

definition expo :: "real \<Rightarrow> int" where
  "expo x = max (ilog2 \<bar>x\<bar>) (- 1022)"

definition fl :: "real \<Rightarrow> real" where
  "fl x =
     (if x = 0 then 0
      else of_int (round_even (x / 2 powi (expo x - 52))) * 2 powi (expo x - 52))"

definition is_double :: "real \<Rightarrow> bool" where
  "is_double x = (fl x = x \<and> \<bar>x\<bar> < 2 ^ 1024)"

definition js_add :: "real \<Rightarrow> real \<Rightarrow> real" where
  "js_add a b = fl (a + b)"

definition js_mul :: "real \<Rightarrow> real \<Rightarrow> real" where
  "js_mul a b = fl (a * b)"

subsection \<open>JavaScript values\<close>

text \<open>
  The value that reaches \<open>login\<close> as \<open>data\<close> is either the object \<open>{ email }\<close> built by the
  magic-link form or whatever \<open>res.json()\<close> produced, so it is modelled as a JSON-like
  value. Numbers are the finite doubles, embedded in the reals; an object is the list of
  its own properties, each key once.
\<close>

datatype jsval =
    JUndefined
  | JNull
  | JBool bool
  | JNum real
  | JStr string
  | JArr "jsval list"
  | JObj "(string \<times> jsval) list"

datatype error = TypeError

text \<open>JavaScript truthiness, as used by \<open>||\<close>.\<close>

fun truthy :: "jsval \<Rightarrow> bool" where
  "truthy JUndefined = False"
| "truthy JNull = False"
| "truthy (JBool b) = b"
| "truthy (JNum x) = (x \<noteq> 0)"
| "truthy (JStr s) = (s \<noteq> [])"
| "truthy (JArr xs) = True"
| "truthy (JObj kvs) = True"

text \<open>
  Property access \<open>v.k\<close> for a key that no prototype defines (it is only used with
  \<open>email\<close>): a \<open>TypeError\<close> on \<open>null\<close> and \<open>undefined\<close>, the own property of an object,
  \<open>undefined\<close> everywhere else.
\<close>

fun js_get :: "string \<Rightarrow> jsval \<Rightarrow> error + jsval" where
  "js_get k JUndefined = Inl TypeError"
| "js_get k JNull = Inl TypeError"
| "js_get k (JObj kvs) = Inr (case map_of kvs k of None \<Rightarrow> JUndefined | Some v \<Rightarrow> v)"
| "js_get k v = Inr JUndefined"

definition js_or :: "jsval \<Rightarrow> jsval \<Rightarrow> jsval" where
  "js_or a b = (if truthy a then a else b)"

text \<open>
  \<open>Array.prototype.slice(start, end)\<close>: a negative index counts from the end of the array,
  both indices are clamped to the array.
\<close>

definition slice_js :: "int \<Rightarrow> int \<Rightarrow> 'a list \<Rightarrow> 'a list" where
  "slice_js start fin xs =
     (let n = int (length xs);
          k = (if start < 0 then max (n + start) 0 else min start n);
          f = (if fin < 0 then max (n + fin) 0 else min fin n)
      in take (nat (f - k)) (drop (nat k) xs))"

subsection \<open>Effects\<close>

datatype effect =
    Fetch string string "(string \<times> string) list" jsval
  | SetTimeout nat
  | SetInterval nat
  | ClearInterval
  | ConsoleError string
  | ConsoleLog string
  | PreventDefault
  | StopPropagation
  | Uncaught error

fun is_network :: "effect \<Rightarrow> bool" where
  "is_network (Fetch url m hs body) = True"
| "is_network e = False"

subsection \<open>State\<close>

record user_rec =
  user_id :: int
  user_email :: jsval
  user_name :: string
  user_plan :: string
  user_credits :: int
  user_trialEnds :: int

record file_rec =
  file_name :: string
  file_size :: nat

text \<open>The state cells of one mounted \<open>UploadPage\<close>; \<open>interval\<close> records that its timer is armed.\<close>

record upload_state =
  files :: "file_rec list"
  isDragging :: bool
  uploadProgress :: real
  isUploading :: bool
  interval :: bool

record invoice =
  inv_id :: int
  inv_filename :: string
  inv_status :: string
  inv_uploadedAt :: string
  inv_vendor :: "string option"
  inv_total :: "string option"

text \<open>The three keyed pages inside \<open>AnimatePresence\<close>.\<close>

datatype view = LandingView | UploadView | DashboardView

text \<open>Callbacks that have been scheduled and have not run yet.\<close>

datatype task =
    LoginTimer jsval
  | MagicLinkTimer string
  | LoginFetch

text \<open>
  The state of the application: the cells of \<open>AuthProvider\<close>, \<open>AuthModal\<close> and \<open>InvoiceAI\<close>,
  the pages that \<open>AnimatePresence\<close> currently keeps in the document (\<open>presented\<close>), the
  cells of the page components that are mounted, and the pending callbacks.
\<close>

record app =
  user :: "user_rec option"
  loading :: bool
  mode :: string
  email :: string
  isSubmitting :: bool
  currentPage :: string
  showAuthModal :: bool
  presented :: "view list"
  upload :: "upload_state option"
  dashboard :: "invoice list option"
  tasks :: "task list"

subsection \<open>UploadPage\<close>

definition upload_init :: upload_state where
  "upload_init = \<lparr>files = [], isDragging = False, uploadProgress = 0,
                  isUploading = False, interval = False\<rparr>"

text \<open>The updater \<open>prev => [...prev, ...added.slice(0, 100 - prev.length)]\<close>.\<close>

definition add_files :: "file_rec list \<Rightarrow> file_rec list \<Rightarrow> file_rec list" where
  "add_files prev added = prev @ slice_js 0 (100 - int (length prev)) added"

definition handleDrop :: "file_rec list \<Rightarrow> upload_state \<Rightarrow> upload_state \<times> effect list" where
  "handleDrop droppedFiles u =
     (u\<lparr>isDragging := False, files := add_files (files u) droppedFiles\<rparr>, [PreventDefault])"

definition handleFileSelect :: "file_rec list \<Rightarrow> upload_state \<Rightarrow> upload_state \<times> effect list" where
  "handleFileSelect selectedFiles u =
     (u\<lparr>files := add_files (files u) selectedFiles\<rparr>, [])"

text \<open>\<open>files.filter((_, idx) => idx !== i)\<close>\<close>

definition remove_file :: "nat \<Rightarrow> file_rec list \<Rightarrow> file_rec list" where
  "remove_file i fs = map snd (filter (\<lambda>p. fst p \<noteq> i) (enumerate 0 fs))"

definition startUpload :: "upload_state \<Rightarrow> upload_state \<times> effect list" where
  "startUpload u =
     (if length (files u) = 0 then (u, [])
      else (u\<lparr>isUploading := True, uploadProgress := 0, interval := True\<rparr>, [SetInterval 200]))"

text \<open>
  One run of the interval callback. \<open>rnd\<close> is the double \<open>Math.random()\<close> returns in that
  run; the product and the sum are those of doubles.
\<close>

definition tick :: "real \<Rightarrow> upload_state \<Rightarrow> upload_state \<times> effect list" where
  "tick rnd u =
     (if uploadProgress u \<ge> 100
      then (u\<lparr>interval := False, isUploading := False, uploadProgress := 100\<rparr>, [ClearInterval])
      else (u\<lparr>uploadProgress := js_add (uploadProgress u) (js_mul rnd 15)\<rparr>, []))"

subsection \<open>AuthProvider\<close>

text \<open>
  \<open>login\<close> sets the loading flag and arms a timer of 1000 ms; it ignores \<open>method\<close>. The
  callback of the timer is \<open>login_timeout\<close>: the object literal is evaluated first, so a
  failing \<open>data.email\<close> leaves both setters uncalled. \<open>now\<close> is what \<open>Date.now()\<close> returns
  when the callback runs: a whole number of milliseconds, small enough for the sum with
  the 14 days to be exact as a double.
\<close>

definition login :: "string \<Rightarrow> jsval \<Rightarrow> app \<Rightarrow> app \<times> effect list" where
  "login method data s = (s\<lparr>loading := True, tasks := tasks s @ [LoginTimer data]\<rparr>, [SetTimeout 1000])"

definition login_timeout :: "int \<Rightarrow> jsval \<Rightarrow> app \<Rightarrow> error + app" where
  "login_timeout now data s =
     (case js_get ''email'' data of
        Inl err \<Rightarrow> Inl err
      | Inr em \<Rightarrow>
          Inr (s\<lparr>user := Some \<lparr>user_id = 1,
                                user_email = js_or em (JStr ''user@example.com''),
                                user_name = ''John Doe'',
                                user_plan = ''trial'',
                                user_credits = 50,
                                user_trialEnds = now + 14 * 24 * 60 * 60 * 1000\<rparr>,
                 loading := False\<rparr>))"

definition logout :: "app \<Rightarrow> app" where
  "logout s = s\<lparr>user := None\<rparr>"

subsection \<open>AuthModal\<close>

text \<open>
  \<open>AuthModal\<close> keeps its cells whether it is open or not, and returns \<open>null\<close> when it is not
  open: its own \<open>AnimatePresence\<close> is then not rendered either, so the modal is in the
  document exactly when \<open>showAuthModal\<close> holds.
\<close>

definition onClose :: "app \<Rightarrow> app" where
  "onClose s = s\<lparr>showAuthModal := False\<rparr>"

definition handleMagicLink :: "app \<Rightarrow> app \<times> effect list" where
  "handleMagicLink s =
     (s\<lparr>isSubmitting := True, tasks := tasks s @ [MagicLinkTimer (email s)]\<rparr>,
      [PreventDefault, SetTimeout 1500])"

text \<open>The callback of the magic-link timer; \<open>em\<close> is the address its closure holds.\<close>

definition handleMagicLink_timeout :: "string \<Rightarrow> app \<Rightarrow> app \<times> effect list" where
  "handleMagicLink_timeout em s =
     (let (s1, fx) = login ''magic-link'' (JObj [(''email'', JStr em)]) (s\<lparr>isSubmitting := False\<rparr>)
      in (onClose s1, fx))"

text \<open>
  \<open>GoogleLogin.onSuccess\<close> up to its first \<open>await\<close>: the request is sent. The body is kept as
  the object handed to \<open>JSON.stringify\<close>; \<open>cred\<close> is \<open>credentialResponse.credential\<close>.
\<close>

definition googleOnSuccess :: "string \<Rightarrow> app \<Rightarrow> app \<times> effect list" where
  "googleOnSuccess cred s =
     (s\<lparr>tasks := tasks s @ [LoginFetch]\<rparr>,
      [Fetch ''/api/auth/login'' ''POST'' [(''Content-Type'', ''application/json'')]
         (JObj [(''provider'', JStr ''google''), (''token'', JStr cred)])])"

text \<open>
  How the request ends: the promise of \<open>fetch\<close> rejects, or it resolves to a response with
  its \<open>ok\<close> flag and the outcome of \<open>res.json()\<close> (\<open>None\<close> when that promise rejects).
\<close>

datatype fetch_outcome = Rejected | Responded bool "jsval option"

text \<open>The rest of \<open>onSuccess\<close>, from the first \<open>await\<close> on, with its \<open>catch\<close>.\<close>

definition googleOnSuccess_settled :: "fetch_outcome \<Rightarrow> app \<Rightarrow> app \<times> effect list" where
  "googleOnSuccess_settled outcome s =
     (case outcome of
        Rejected \<Rightarrow> (s, [ConsoleError ''Google login error:''])
      | Responded ok body \<Rightarrow>
          if \<not> ok then (s, [ConsoleError ''Google login error:''])
          else (case body of
                  None \<Rightarrow> (s, [ConsoleError ''Google login error:''])
                | Some data \<Rightarrow> (let (s1, fx) = login ''google'' data s in (onClose s1, fx))))"

definition googleOnError :: "app \<Rightarrow> app \<times> effect list" where
  "googleOnError s = (s, [ConsoleLog ''Google Login Failed''])"

subsection \<open>Dashboard\<close>

text \<open>The initial value of the \<open>invoices\<close> cell; the component keeps no setter for it.\<close>

definition invoices_initial :: "invoice list" where
  "invoices_initial =
     [\<lparr>inv_id = 1, inv_filename = ''invoice-001.pdf'', inv_status = ''completed'',
       inv_uploadedAt = ''2025-08-29T10:30:00Z'', inv_vendor = Some ''ABC Company'',
       inv_total = Some ''$1,250.00''\<rparr>,
      \<lparr>inv_id = 2, inv_filename = ''receipt-002.jpg'', inv_status = ''processing'',
       inv_uploadedAt = ''2025-08-29T11:15:00Z'', inv_vendor = Some ''XYZ Corp'',
       inv_total = None\<rparr>,
      \<lparr>inv_id = 3, inv_filename = ''bill-003.png'', inv_status = ''failed'',
       inv_uploadedAt = ''2025-08-29T09:45:00Z'', inv_vendor = None,
       inv_total = None\<rparr>]"

subsection \<open>InvoiceAI\<close>

definition app_init :: app where
  "app_init = \<lparr>user = None, loading = False, mode = ''login'', email = [],
               isSubmitting = False, currentPage = ''landing'', showAuthModal = False,
               presented = [LandingView], upload = None, dashboard = None, tasks = []\<rparr>"

text \<open>The body of \<open>useEffect\<close>, which runs after a render in which \<open>user\<close> or \<open>currentPage\<close> changed.\<close>

definition page_effect :: "app \<Rightarrow> app" where
  "page_effect s =
     (if user s \<noteq> None \<and> currentPage s = ''landing'' then s\<lparr>currentPage := ''dashboard''\<rparr> else s)"

definition handleNavigation :: "string \<Rightarrow> app \<Rightarrow> app" where
  "handleNavigation page s = s\<lparr>currentPage := page\<rparr>"

definition handleLogin :: "app \<Rightarrow> app" where
  "handleLogin s = s\<lparr>showAuthModal := True\<rparr>"

text \<open>
  \<open>Navigation\<close>: \<open>null\<close> without a user, else the bar, listed by its interactive parts. It
  is rendered outside \<open>AnimatePresence\<close>.
\<close>

datatype nav_item = NavButton string bool | CreditsText int | UserButton | LogoutButton

definition Navigation :: "app \<Rightarrow> nav_item list option" where
  "Navigation s =
     (case user s of
        None \<Rightarrow> None
      | Some u \<Rightarrow>
          Some [NavButton ''dashboard'' (currentPage s = ''dashboard''),
                NavButton ''upload'' (currentPage s = ''upload''),
                CreditsText (user_credits u), UserButton, LogoutButton])"

text \<open>
  The children that \<open>InvoiceAI\<close> hands to \<open>AnimatePresence\<close>: those of the three keyed
  pages whose condition holds, in the order of the JSX.
\<close>

definition page_children :: "app \<Rightarrow> view list" where
  "page_children s =
     (if currentPage s = ''landing'' \<and> user s = None then [LandingView] else []) @
     (if currentPage s = ''upload'' \<and> user s \<noteq> None then [UploadView] else []) @
     (if currentPage s = ''dashboard'' \<and> user s \<noteq> None then [DashboardView] else [])"

text \<open>
  \<open>AnimatePresence\<close> with \<open>mode="wait"\<close> (framer-motion), whose pages all carry an \<open>exit\<close>
  animation: a page it keeps in the document and that is no longer among its children
  is exiting; it stays in the document, mounted and with its handlers, while its exit
  animation plays, and as long as a page is exiting the entering one is held back. When
  the exit animation has completed the current children are put into the document.
\<close>

definition exiting :: "app \<Rightarrow> view list" where
  "exiting s = filter (\<lambda>v. v \<notin> set (page_children s)) (presented s)"

definition animate_presence :: "app \<Rightarrow> app" where
  "animate_presence s =
     s\<lparr>presented := (if exiting s \<noteq> [] then exiting s else page_children s)\<rparr>"

definition exit_complete :: "app \<Rightarrow> app" where
  "exit_complete s = s\<lparr>presented := page_children s\<rparr>"

text \<open>
  Mounting: a page component that stays in the document keeps its state cells, one that
  enters it gets their initial values, one that leaves it loses them (React ignores the
  state updates of an unmounted component, so its interval has no effect any more).
\<close>

definition mounts :: "app \<Rightarrow> app" where
  "mounts s =
     s\<lparr>upload := (if UploadView \<in> set (presented s)
                   then Some (case upload s of None \<Rightarrow> upload_init | Some u \<Rightarrow> u) else None),
       dashboard := (if DashboardView \<in> set (presented s)
                     then Some (case dashboard s of None \<Rightarrow> invoices_initial | Some d \<Rightarrow> d)
                     else None)\<rparr>"

text \<open>One render of \<open>InvoiceAI\<close>: \<open>AnimatePresence\<close> settles what is in the document, then the
  page components are mounted or unmounted accordingly.\<close>

definition render :: "app \<Rightarrow> app" where
  "render s = mounts (animate_presence s)"

subsection \<open>The application as a transition system\<close>

text \<open>
  What can happen to the running application: a user action on an element that is in the
  document and carries a handler, a pending task firing, or an exit animation coming to
  its end. Tasks are addressed by their position in \<open>tasks\<close>. The buttons without a
  handler (Watch Demo, the download button, the user button) give no event.
\<close>

datatype event =
    ClickSignIn
  | ClickModalClose
  | ClickModalBody
  | ClickContinueWithEmail
  | ClickBackToLogin
  | ChangeEmail string
  | SubmitMagicLink
  | GoogleSuccess string
  | GoogleError
  | FetchSettles nat fetch_outcome
  | LoginTimerFires nat int
  | MagicLinkTimerFires nat
  | DropFiles "file_rec list"
  | SelectFiles "file_rec list"
  | DragEnter
  | DragLeave
  | DragOver
  | ClickClearAll
  | ClickRemove nat
  | ClickProcess
  | IntervalFires real
  | ClickNavDashboard
  | ClickNavUpload
  | ClickLogout
  | ExitComplete

text \<open>
  The browser's constraint validation of the address field (\<open>type="email"\<close>, \<open>required\<close>): a
  valid e-mail address as the HTML standard defines it, a non-empty local part of letters,
  digits and the listed punctuation, one \<open>@\<close>, and a domain of labels separated by dots,
  each of 1 to 63 letters, digits and hyphens that neither starts nor ends with a hyphen.
\<close>

definition is_alnum :: "char \<Rightarrow> bool" where
  "is_alnum c =
     (let n = (of_char c :: nat)
      in (48 \<le> n \<and> n \<le> 57) \<or> (65 \<le> n \<and> n \<le> 90) \<or> (97 \<le> n \<and> n \<le> 122))"

definition is_local_char :: "char \<Rightarrow> bool" where
  "is_local_char c =
     (is_alnum c \<or> c \<in> set ''.!#$%&*+/=?^_{|}~-'' \<or> c = CHR 0x27 \<or> c = CHR 0x60)"

fun split_on :: "char \<Rightarrow> string \<Rightarrow> string list" where
  "split_on c [] = [[]]"
| "split_on c (x # xs) =
     (if x = c then [] # split_on c xs
      else (case split_on c xs of [] \<Rightarrow> [[x]] | w # ws \<Rightarrow> (x # w) # ws))"

definition valid_label :: "string \<Rightarrow> bool" where
  "valid_label l =
     (l \<noteq> [] \<and> length l \<le> 63 \<and> is_alnum (hd l) \<and> is_alnum (last l) \<and>
      list_all (\<lambda>c. is_alnum c \<or> c = CHR ''-'') l)"

definition valid_email :: "string \<Rightarrow> bool" where
  "valid_email a =
     (case split_on (CHR ''@'') a of
        [lpart, dpart] \<Rightarrow>
          lpart \<noteq> [] \<and> list_all is_local_char lpart \<and>
          list_all valid_label (split_on (CHR ''.'') dpart)
      | _ \<Rightarrow> False)"

definition on_upload :: "(upload_state \<Rightarrow> upload_state \<times> effect list) \<Rightarrow> app \<Rightarrow> app \<times> effect list" where
  "on_upload f s =
     (case upload s of
        None \<Rightarrow> (s, [])
      | Some u \<Rightarrow> (let (u', fx) = f u in (s\<lparr>upload := Some u'\<rparr>, fx)))"

definition drop_task :: "nat \<Rightarrow> app \<Rightarrow> app" where
  "drop_task i s = s\<lparr>tasks := take i (tasks s) @ drop (Suc i) (tasks s)\<rparr>"

text \<open>
  An event whose element is not in the document (or whose task is not pending) cannot
  occur and leaves the state as it is; a page that is exiting is still in the document.
  The magic-link form is submitted only while its button is enabled and its address is
  valid. \<open>Math.random()\<close> returns a double in \<open>[0, 1)\<close>. An exception in the login timer
  callback is reported as uncaught; the callback has changed no state cell by then.
\<close>

fun handle :: "event \<Rightarrow> app \<Rightarrow> app \<times> effect list" where
  "handle ClickSignIn s =
     (if LandingView \<in> set (presented s) then (handleLogin s, []) else (s, []))"
| "handle ClickModalClose s =
     (if showAuthModal s then (onClose s, []) else (s, []))"
| "handle ClickModalBody s =
     (if showAuthModal s then (s, [StopPropagation]) else (s, []))"
| "handle ClickContinueWithEmail s =
     (if showAuthModal s \<and> mode s = ''login'' then (s\<lparr>mode := ''magic-link''\<rparr>, []) else (s, []))"
| "handle ClickBackToLogin s =
     (if showAuthModal s \<and> mode s \<noteq> ''login'' then (s\<lparr>mode := ''login''\<rparr>, []) else (s, []))"
| "handle (ChangeEmail v) s =
     (if showAuthModal s \<and> mode s \<noteq> ''login'' then (s\<lparr>email := v\<rparr>, []) else (s, []))"
| "handle SubmitMagicLink s =
     (if showAuthModal s \<and> mode s \<noteq> ''login'' \<and> \<not> isSubmitting s \<and> valid_email (email s)
      then handleMagicLink s else (s, []))"
| "handle (GoogleSuccess cred) s =
     (if showAuthModal s \<and> mode s = ''login'' then googleOnSuccess cred s else (s, []))"
| "handle GoogleError s =
     (if showAuthModal s \<and> mode s = ''login'' then googleOnError s else (s, []))"
| "handle (FetchSettles i outcome) s =
     (if i < length (tasks s) \<and> tasks s ! i = LoginFetch
      then googleOnSuccess_settled outcome (drop_task i s) else (s, []))"
| "handle (LoginTimerFires i now) s =
     (if i < length (tasks s)
      then (case tasks s ! i of
              LoginTimer data \<Rightarrow>
                (case login_timeout now data (drop_task i s) of
                   Inl err \<Rightarrow> (drop_task i s, [Uncaught err])
                 | Inr s' \<Rightarrow> (s', []))
            | MagicLinkTimer em \<Rightarrow> (s, [])
            | LoginFetch \<Rightarrow> (s, []))
      else (s, []))"
| "handle (MagicLinkTimerFires i) s =
     (if i < length (tasks s)
      then (case tasks s ! i of
              MagicLinkTimer em \<Rightarrow> handleMagicLink_timeout em (drop_task i s)
            | LoginTimer data \<Rightarrow> (s, [])
            | LoginFetch \<Rightarrow> (s, []))
      else (s, []))"
| "handle (DropFiles fs) s = on_upload (handleDrop fs) s"
| "handle (SelectFiles fs) s = on_upload (handleFileSelect fs) s"
| "handle DragEnter s = on_upload (\<lambda>u. (u\<lparr>isDragging := True\<rparr>, [])) s"
| "handle DragLeave s = on_upload (\<lambda>u. (u\<lparr>isDragging := False\<rparr>, [])) s"
| "handle DragOver s = on_upload (\<lambda>u. (u, [PreventDefault])) s"
| "handle ClickClearAll s =
     on_upload (\<lambda>u. if length (files u) > 0 then (u\<lparr>files := []\<rparr>, []) else (u, [])) s"
| "handle (ClickRemove i) s =
     on_upload (\<lambda>u. if i < length (files u) then (u\<lparr>files := remove_file i (files u)\<rparr>, [])
                     else (u, [])) s"
| "handle ClickProcess s =
     on_upload (\<lambda>u. if length (files u) > 0 \<and> \<not> isUploading u then startUpload u else (u, [])) s"
| "handle (IntervalFires rnd) s =
     on_upload (\<lambda>u. if interval u \<and> is_double rnd \<and> 0 \<le> rnd \<and> rnd < 1 then tick rnd u
                     else (u, [])) s"
| "handle ClickNavDashboard s =
     (if user s \<noteq> None then (handleNavigation ''dashboard'' s, []) else (s, []))"
| "handle ClickNavUpload s =
     (if user s \<noteq> None then (handleNavigation ''upload'' s, []) else (s, []))"
| "handle ClickLogout s =
     (if user s \<noteq> None then (logout s, []) else (s, []))"
| "handle ExitComplete s =
     (if exiting s \<noteq> [] then (exit_complete s, []) else (s, []))"

text \<open>One event: the handler runs, then the application is rendered.\<close>

definition fire :: "event \<Rightarrow> app \<Rightarrow> app \<times> effect list" where
  "fire e s = (let (s', fx) = handle e s in (render s', fx))"

text \<open>
  The states the application can be in. The render between a state change and the run of
  the effect is a state of its own.
\<close>

inductive reachable :: "app \<Rightarrow> bool" where
  start: "reachable app_init"
| event: "reachable s \<Longrightarrow> reachable (fst (fire e s))"
| effect: "reachable s \<Longrightarrow> reachable (render (page_effect s))"

text \<open>A run: after each event the effect is run before the next event is taken.\<close>

fun run :: "event list \<Rightarrow> app \<Rightarrow> app" where
  "run [] s = s"
| "run (e # es) s = run es (render (page_effect (fst (fire e s))))"

text \<open>The interval callback, run once for each draw of the list.\<close>

fun ticks :: "real list \<Rightarrow> upload_state \<Rightarrow> upload_state" where
  "ticks [] u = u"
| "ticks (r # rs) u = ticks rs (fst (tick r u))"

subsection \<open>Invariants and example inputs\<close>

definition files_ok :: "app \<Rightarrow> bool" where
  "files_ok s = (case upload s of None \<Rightarrow> True | Some u \<Rightarrow> length (files u) \<le> 100)"

definition progress_ok :: "app \<Rightarrow> bool" where
  "progress_ok s =
     (case upload s of
        None \<Rightarrow> True
      | Some u \<Rightarrow> is_double (uploadProgress u) \<and> 0 \<le> uploadProgress u \<and> uploadProgress u \<le> 115)"

definition dash_ok :: "app \<Rightarrow> bool" where
  "dash_ok s =
     (dashboard s = (if DashboardView \<in> set (presented s) then Some invoices_initial else None))"

text \<open>The outcomes on which \<open>onSuccess\<close> ends in its \<open>catch\<close>.\<close>

fun login_failed :: "fetch_outcome \<Rightarrow> bool" where
  "login_failed Rejected = True"
| "login_failed (Responded ok body) = (if ok then body = None else True)"

definition example_file :: file_rec where
  "example_file = \<lparr>file_name = ''a.pdf'', file_size = 10\<rparr>"

text \<open>A Google login up to the firing of the login timer, and with the exit of the landing page.\<close>

definition example_signin :: "event list" where
  "example_signin =
     [ClickSignIn, GoogleSuccess ''tok'',
      FetchSettles 0 (Responded True (Some (JObj [(''email'', JStr ''a@b.c'')]))),
      LoginTimerFires 0 1000]"

definition example_login :: "event list" where
  "example_login = example_signin @ [ExitComplete]"

definition example_upload :: upload_state where
  "example_upload = upload_init\<lparr>files := [example_file, example_file]\<rparr>"

definition example_full :: upload_state where
  "example_full = upload_init\<lparr>files := replicate 100 example_file\<rparr>"

definition example_events :: "event list" where
  "example_events =
     example_login @
     [ClickNavUpload, ExitComplete, DropFiles [example_file, example_file],
      SelectFiles [example_file]]"

definition example_null_login :: "event list" where
  "example_null_login =
     [ClickSignIn, GoogleSuccess ''tok'', FetchSettles 0 (Responded True (Some JNull)),
      LoginTimerFires 0 1000]"

definition example_data :: jsval where
  "example_data = JObj [(''email'', JStr ''a@b.c'')]"

definition example_draws :: "real list" where
  "example_draws = [1/2, 1/2, 1/2, 1/2, 1/2, 1/2, 1/2, 1/2, 1/2, 1/2, 1/2, 1/2, 1/2, 1/2]"

definition example_started :: upload_state where
  "example_started = fst (startUpload example_upload)"

definition example_at_90 :: upload_state where
  "example_at_90 = ticks (take 12 example_draws) example_started"

definition example_overshoot :: "event list" where
  "example_overshoot =
     example_login @
     [ClickNavUpload, ExitComplete, DropFiles [example_file, example_file], ClickProcess] @
     map IntervalFires example_draws"

definition example_pending :: app where
  "example_pending = run [ClickSignIn, GoogleSuccess ''tok''] app_init"

definition example_signing_in :: app where
  "example_signing_in =
     run [ClickSignIn, GoogleSuccess ''tok'',
          FetchSettles 0 (Responded True (Some (JObj [(''email'', JStr ''a@b.c'')])))] app_init"

section \<open>Properties\<close>

subsection \<open>Rounding to a double\<close>

lemma ilog2_bounds:
  assumes "0 < x"
  shows "2 powi (ilog2 x) \<le> x" and "x < 2 powi (ilog2 x + 1)"
proof -
  have "2 powi (ilog2 x) \<le> x \<and> x < 2 powi (ilog2 x + 1)"
  proof (cases "1 \<le> x")
    case True
    define n where "n = \<lfloor>x\<rfloor>"
    from True have n: "0 < n" by (simp add: n_def)
    then have b1: "1 \<le> bitlen n" by (simp add: bitlen_alt_def)
    from bitlen_bounds[OF n] have lo: "2 ^ nat (bitlen n - 1) \<le> n" and hi: "n < 2 ^ nat (bitlen n)"
      by simp_all
    from hi have hi': "n + 1 \<le> 2 ^ nat (bitlen n)" by simp
    have "(2::real) powi (bitlen n - 1) = 2 ^ nat (bitlen n - 1)"
      using b1 by (simp add: power_int_def)
    also have "\<dots> = of_int (2 ^ nat (bitlen n - 1))" by simp
    also have "\<dots> \<le> of_int n" using lo by (simp only: of_int_le_iff)
    also have "\<dots> \<le> x" by (simp add: n_def)
    finally have A: "2 powi (bitlen n - 1) \<le> x" .
    have "x < of_int (n + 1)" by (simp add: n_def)
    also have "\<dots> \<le> of_int (2 ^ nat (bitlen n))" using hi' by (simp only: of_int_le_iff)
    also have "\<dots> = (2::real) powi (bitlen n)" using b1 by (simp add: power_int_def)
    finally have B: "x < 2 powi (bitlen n)" .
    from True A B show ?thesis by (simp add: ilog2_def n_def)
  next
    case False
    define c where "c = \<lceil>1 / x\<rceil>"
    define k where "k = bitlen (c - 1)"
    from False assms have y1: "1 < 1 / x" by simp
    then have c2: "2 \<le> c" unfolding c_def by linarith
    then have p: "0 < c - 1" by simp
    then have k1: "1 \<le> k" by (simp add: k_def bitlen_alt_def)
    from bitlen_bounds[OF p] have lo: "2 ^ nat (k - 1) \<le> c - 1" and hi: "c - 1 < 2 ^ nat k"
      by (simp_all add: k_def)
    from hi have hi': "c \<le> 2 ^ nat k" by simp
    have "real_of_int (2 ^ nat (k - 1)) \<le> of_int (c - 1)" using lo by (simp only: of_int_le_iff)
    also have "\<dots> < 1 / x" unfolding c_def by linarith
    finally have L: "2 ^ nat (k - 1) < 1 / x" by simp
    have "1 / x \<le> of_int c" unfolding c_def by linarith
    also have "\<dots> \<le> of_int (2 ^ nat k)" using hi' by (simp only: of_int_le_iff)
    finally have U: "1 / x \<le> 2 ^ nat k" by simp
    have pk: "(2::real) powi (- k) = 1 / 2 ^ nat k"
      using k1 by (simp add: power_int_def field_simps)
    have pk1: "(2::real) powi (- k + 1) = 1 / 2 ^ nat (k - 1)"
      using k1 by (cases "k = 1") (simp_all add: power_int_def field_simps nat_diff_distrib)
    from U assms have A: "2 powi (- k) \<le> x"
      unfolding pk by (simp add: field_simps)
    from L assms have B: "x < 2 powi (- k + 1)"
      unfolding pk1 by (simp add: field_simps)
    from False A B show ?thesis by (simp add: ilog2_def c_def k_def)
  qed
  then show "2 powi (ilog2 x) \<le> x" and "x < 2 powi (ilog2 x + 1)" by simp_all
qed

lemma powi_less_cancel:
  assumes "(2::real) powi a < 2 powi b"
  shows "a < b"
proof (rule ccontr)
  assume "\<not> a < b"
  then have "(2::real) powi b \<le> 2 powi a" by (intro power_int_increasing) simp_all
  with assms show False by simp
qed

lemma ilog2_mono:
  assumes "0 < x" and "x \<le> y"
  shows "ilog2 x \<le> ilog2 y"
proof (rule ccontr)
  assume "\<not> ilog2 x \<le> ilog2 y"
  then have "ilog2 y + 1 \<le> ilog2 x" by simp
  then have "(2::real) powi (ilog2 y + 1) \<le> 2 powi (ilog2 x)"
    by (intro power_int_increasing) simp_all
  also have "\<dots> \<le> x" using assms(1) by (rule ilog2_bounds)
  finally have "2 powi (ilog2 y + 1) \<le> y" using assms(2) by simp
  moreover from assms have "y < 2 powi (ilog2 y + 1)" by (intro ilog2_bounds) simp
  ultimately show False by simp
qed

lemma round_even_bounds: "\<lfloor>x\<rfloor> \<le> round_even x" "round_even x \<le> \<lfloor>x\<rfloor> + 1"
  by (simp_all add: round_even_def Let_def)

lemma round_even_of_int: "round_even (of_int n) = n"
  by (simp add: round_even_def)

lemma round_even_mono:
  assumes "a \<le> b"
  shows "round_even a \<le> round_even b"
proof (cases "\<lfloor>a\<rfloor> = \<lfloor>b\<rfloor>")
  case True
  with assms have "a - of_int \<lfloor>a\<rfloor> \<le> b - of_int \<lfloor>a\<rfloor>" by simp
  with True show ?thesis
    by (auto simp: round_even_def Let_def)
next
  case False
  with assms have "\<lfloor>a\<rfloor> + 1 \<le> \<lfloor>b\<rfloor>"
    using floor_mono[OF assms] by linarith
  with round_even_bounds(2)[of a] round_even_bounds(1)[of b] show ?thesis
    by linarith
qed

lemma round_even_ge: "of_int n \<le> a \<Longrightarrow> n \<le> round_even a"
  using round_even_mono[of "of_int n" a] by (simp add: round_even_of_int)

lemma round_even_le: "a \<le> of_int n \<Longrightarrow> round_even a \<le> n"
  using round_even_mono[of a "of_int n"] by (simp add: round_even_of_int)

lemma expo_ge: "- 1022 \<le> expo x"
  by (simp add: expo_def)

lemma fl_pos:
  "x \<noteq> 0 \<Longrightarrow> fl x = of_int (round_even (x / 2 powi (expo x - 52))) * 2 powi (expo x - 52)"
  by (simp add: fl_def)

lemma fl_nonneg: "0 \<le> x \<Longrightarrow> 0 \<le> fl x"
proof (cases "x = 0")
  case True
  then show ?thesis by (simp add: fl_def)
next
  case False
  assume "0 \<le> x"
  then have "of_int 0 \<le> x / 2 powi (expo x - 52)" by simp
  then have "0 \<le> round_even (x / 2 powi (expo x - 52))" by (rule round_even_ge)
  then show ?thesis unfolding fl_pos[OF False] by simp
qed

lemma two_powi_split: "(2::real) powi (e + 1) = 2 ^ 53 * 2 powi (e - 52)"
proof -
  have "e + 1 = 53 + (e - 52)" by simp
  then have "(2::real) powi (e + 1) = 2 powi (53 + (e - 52))" by (simp only:)
  also have "\<dots> = 2 powi 53 * 2 powi (e - 52)" by (subst power_int_add) simp_all
  finally show ?thesis by simp
qed

lemma two_powi_split': "(2::real) powi e = 2 ^ 52 * 2 powi (e - 52)"
proof -
  have "e = 52 + (e - 52)" by simp
  then have "(2::real) powi e = 2 powi (52 + (e - 52))" by (simp only:)
  also have "\<dots> = 2 powi 52 * 2 powi (e - 52)" by (subst power_int_add) simp_all
  finally show ?thesis by simp
qed

lemma mant_upper:
  assumes "0 < x"
  shows "round_even (x / 2 powi (expo x - 52)) \<le> 2 ^ 53"
proof -
  let ?q = "(2::real) powi (expo x - 52)"
  have q: "0 < ?q" by simp
  from assms have "x < 2 powi (ilog2 x + 1)" by (rule ilog2_bounds)
  also have "\<dots> \<le> 2 powi (expo x + 1)"
    using assms by (intro power_int_increasing) (simp_all add: expo_def)
  finally have "x < 2 ^ 53 * ?q" by (simp only: two_powi_split)
  with q have "x / ?q \<le> of_int (2 ^ 53)" by (simp add: field_simps)
  then show ?thesis by (rule round_even_le)
qed

lemma fl_upper:
  assumes "0 < x"
  shows "fl x \<le> 2 powi (expo x + 1)"
proof -
  let ?q = "(2::real) powi (expo x - 52)"
  have q: "0 < ?q" by simp
  from mant_upper[OF assms] have "real_of_int (round_even (x / ?q)) \<le> real_of_int (2 ^ 53)"
    by (simp only: of_int_le_iff)
  then have "real_of_int (round_even (x / ?q)) \<le> 2 ^ 53" by simp
  with q have "of_int (round_even (x / ?q)) * ?q \<le> 2 ^ 53 * ?q"
    by (intro mult_right_mono) simp_all
  moreover from assms have "fl x = of_int (round_even (x / ?q)) * ?q" by (simp add: fl_pos)
  moreover have "2 powi (expo x + 1) = 2 ^ 53 * ?q" by (rule two_powi_split)
  ultimately show ?thesis by (simp only:)
qed

lemma fl_lower:
  assumes "0 < x" and "- 1022 \<le> ilog2 x"
  shows "2 powi (expo x) \<le> fl x"
proof -
  let ?q = "(2::real) powi (expo x - 52)"
  have q: "0 < ?q" by simp
  from assms have e: "expo x = ilog2 x" by (simp add: expo_def)
  from assms(1) have "2 powi (expo x) \<le> x" unfolding e by (rule ilog2_bounds)
  then have "2 ^ 52 * ?q \<le> x" by (simp only: two_powi_split'[symmetric])
  with q have "of_int (2 ^ 52) \<le> x / ?q" by (simp add: field_simps)
  then have "2 ^ 52 \<le> round_even (x / ?q)" by (rule round_even_ge)
  then have "real_of_int (2 ^ 52) \<le> real_of_int (round_even (x / ?q))"
    by (simp only: of_int_le_iff)
  then have "2 ^ 52 \<le> real_of_int (round_even (x / ?q))" by simp
  with q have "2 ^ 52 * ?q \<le> of_int (round_even (x / ?q)) * ?q"
    by (intro mult_right_mono) simp_all
  moreover from assms have "fl x = of_int (round_even (x / ?q)) * ?q" by (simp add: fl_pos)
  moreover have "2 powi (expo x) = 2 ^ 52 * ?q" by (rule two_powi_split')
  ultimately show ?thesis by (simp only:)
qed

text \<open>Rounding is monotone on the non-negative reals.\<close>

lemma fl_mono:
  assumes "0 \<le> x" and "x \<le> y"
  shows "fl x \<le> fl y"
proof (cases "x = 0")
  case True
  with assms fl_nonneg[of y] show ?thesis by (simp add: fl_def)
next
  case False
  with assms have x: "0 < x" and y: "0 < y" by simp_all
  from ilog2_mono[OF x assms(2)] x y have le: "expo x \<le> expo y"
    by (simp add: expo_def)
  show ?thesis
  proof (cases "expo x = expo y")
    case True
    let ?q = "(2::real) powi (expo y - 52)"
    have q: "0 < ?q" by simp
    from assms(2) q have "x / ?q \<le> y / ?q" by (simp add: divide_right_mono)
    then have "real_of_int (round_even (x / ?q)) \<le> of_int (round_even (y / ?q))"
      using round_even_mono by simp
    with q have "of_int (round_even (x / ?q)) * ?q \<le> of_int (round_even (y / ?q)) * ?q"
      by (intro mult_right_mono) simp_all
    with x y True show ?thesis by (simp add: fl_pos)
  next
    case False
    with le have lt: "expo x + 1 \<le> expo y" by simp
    moreover have "- 1022 \<le> expo x" by (simp add: expo_def)
    ultimately have "- 1022 \<le> ilog2 y" using y by (simp add: expo_def max_def split: if_splits)
    from fl_lower[OF y this] have "2 powi (expo y) \<le> fl y" .
    moreover have "(2::real) powi (expo x + 1) \<le> 2 powi (expo y)"
      using lt by (intro power_int_increasing) simp_all
    moreover note fl_upper[OF x]
    ultimately show ?thesis by linarith
  qed
qed

text \<open>A number with a significand below \<open>2 ^ 53\<close> and an exponent in range is its own rounding.\<close>

lemma fl_exact:
  assumes x: "x = of_int m * 2 powi k" and k: "- 1074 \<le> k" and m: "\<bar>m\<bar> < 2 ^ 53"
  shows "fl x = x"
proof (cases "x = 0")
  case True
  then show ?thesis by (simp add: fl_def)
next
  case False
  let ?e = "expo x"
  have le: "?e - 52 \<le> k"
  proof (cases "ilog2 \<bar>x\<bar> \<le> - 1022")
    case True
    then have "?e = - 1022" by (simp add: expo_def)
    with k show ?thesis by simp
  next
    case False
    then have e: "?e = ilog2 \<bar>x\<bar>" by (simp add: expo_def)
    from \<open>x \<noteq> 0\<close> have "2 powi ?e \<le> \<bar>x\<bar>" unfolding e by (intro ilog2_bounds) simp
    also have "\<bar>x\<bar> = of_int \<bar>m\<bar> * 2 powi k" by (simp add: x abs_mult)
    also have "\<dots> < 2 ^ 53 * 2 powi k"
    proof -
      from m have "real_of_int \<bar>m\<bar> < real_of_int (2 ^ 53)" by (simp only: of_int_less_iff)
      then have "real_of_int \<bar>m\<bar> < 2 ^ 53" by simp
      then show ?thesis by (intro mult_strict_right_mono) simp_all
    qed
    also have "\<dots> = 2 powi (k + 52 + 1)" by (simp only: two_powi_split) simp
    finally have "?e < k + 52 + 1" by (rule powi_less_cancel)
    then show ?thesis by simp
  qed
  define j where "j = nat (k - (?e - 52))"
  define q :: real where "q = 2 powi (?e - 52)"
  have q: "q \<noteq> 0" by (simp add: q_def)
  have "k = int j + (?e - 52)" using le by (simp add: j_def)
  then have "(2::real) powi k = 2 powi (int j + (?e - 52))" by (simp only:)
  also have "\<dots> = 2 powi (int j) * 2 powi (?e - 52)" by (subst power_int_add) simp_all
  finally have pk: "(2::real) powi k = 2 ^ j * q" by (simp add: q_def)
  have xq: "x = of_int (m * 2 ^ j) * q" unfolding x pk by simp
  have "x / q = of_int (m * 2 ^ j) * q / q" by (rule arg_cong[OF xq])
  also have "\<dots> = of_int (m * 2 ^ j)" using q by simp
  finally have "round_even (x / q) = m * 2 ^ j" by (simp only: round_even_of_int)
  moreover have "fl x = of_int (round_even (x / q)) * q" unfolding q_def using False by (rule fl_pos)
  ultimately have "fl x = of_int (m * 2 ^ j) * q" by (simp only:)
  with xq show ?thesis by (simp only:)
qed

text \<open>The rounding of a non-negative real is a fixed point of the rounding.\<close>

lemma fl_fl:
  assumes "0 \<le> x"
  shows "fl (fl x) = fl x"
proof (cases "x = 0")
  case True
  then show ?thesis by (simp add: fl_def)
next
  case False
  with assms have x: "0 < x" by simp
  let ?q = "(2::real) powi (expo x - 52)"
  let ?r = "round_even (x / ?q)"
  have f: "fl x = of_int ?r * ?q" using False by (rule fl_pos)
  have r0: "0 \<le> ?r" using x by (intro round_even_ge) simp
  show ?thesis
  proof (cases "?r < 2 ^ 53")
    case True
    with r0 have m: "\<bar>?r\<bar> < 2 ^ 53" by simp
    have k: "- 1074 \<le> expo x - 52" using expo_ge[of x] by simp
    show ?thesis by (rule fl_exact[OF f k m])
  next
    case False
    with mant_upper[OF x] have "?r = 2 ^ 53" by simp
    then have "real_of_int ?r = real_of_int (2 ^ 53)" by (simp only:)
    then have "real_of_int ?r = 2 ^ 53" by simp
    with f have "fl x = of_int 1 * 2 powi (expo x + 1)" by (simp add: two_powi_split)
    moreover have "- 1074 \<le> expo x + 1" using expo_ge[of x] by simp
    moreover have "\<bar>1::int\<bar> < 2 ^ 53" by simp
    ultimately show ?thesis by (rule fl_exact)
  qed
qed

text \<open>The largest double below 1 is \<open>1 - 2 ^ -53\<close>.\<close>

lemma double_below_one:
  assumes "fl u = u" and "0 < u" and "u < 1"
  shows "u \<le> 1 - 1 / 2 ^ 53"
proof -
  define r where "r = round_even (u / 2 powi (expo u - 52))"
  from assms have f: "u = of_int r * 2 powi (expo u - 52)"
    unfolding r_def using fl_pos[of u] by simp
  have "(2::real) powi (ilog2 u) \<le> u" using assms(2) by (rule ilog2_bounds)
  with assms(3) have "(2::real) powi (ilog2 u) < 2 powi 0" by simp
  then have i: "ilog2 u < 0" by (rule powi_less_cancel)
  with assms(2) have e: "expo u \<le> - 1" by (simp add: expo_def)
  show ?thesis
  proof (cases "expo u = - 1")
    case True
    have "(2::real) powi (- 53) = 1 / 2 ^ 53" by (simp add: power_int_minus field_simps)
    with f True have u: "u = of_int r / 2 ^ 53" by simp
    with assms(3) have "real_of_int r < 2 ^ 53" by (simp add: field_simps)
    then have "real_of_int r < real_of_int (2 ^ 53)" by simp
    then have "r < 2 ^ 53" by (simp only: of_int_less_iff)
    then have "r \<le> 2 ^ 53 - 1" by simp
    then have "real_of_int r \<le> real_of_int (2 ^ 53 - 1)" by (simp only: of_int_le_iff)
    then have "real_of_int r \<le> 2 ^ 53 - 1" by simp
    then have "real_of_int r / 2 ^ 53 \<le> (2 ^ 53 - 1) / 2 ^ 53"
      by (intro divide_right_mono) simp_all
    also have "\<dots> = 1 - 1 / 2 ^ (53::nat)" by (simp add: field_simps)
    finally show ?thesis unfolding u .
  next
    case False
    with e have "expo u + 1 \<le> - 1" by simp
    then have "(2::real) powi (expo u + 1) \<le> 2 powi (- 1)"
      by (intro power_int_increasing) simp_all
    moreover have "u < 2 powi (ilog2 u + 1)" using assms(2) by (rule ilog2_bounds)
    moreover have "(2::real) powi (ilog2 u + 1) \<le> 2 powi (expo u + 1)"
      using assms(2) by (intro power_int_increasing) (simp_all add: expo_def)
    ultimately have "u < 2 powi (- 1)" by linarith
    then have "u < 1 / 2" by (simp add: power_int_minus)
    then show ?thesis by simp
  qed
qed

lemma fl_int: "\<bar>n\<bar> < 2 ^ 53 \<Longrightarrow> fl (of_int n) = of_int n"
  by (rule fl_exact[where m = n and k = 0]) simp_all

lemma fl_half: "\<bar>n\<bar> < 2 ^ 53 \<Longrightarrow> fl (of_int n / 2) = of_int n / 2"
  by (rule fl_exact[where m = n and k = "- 1"]) (simp_all add: power_int_minus)

lemmas fl_ints =
  fl_int[of 15, simplified] fl_int[of 30, simplified] fl_int[of 45, simplified]
  fl_int[of 60, simplified] fl_int[of 75, simplified] fl_int[of 90, simplified]
  fl_int[of 100, simplified] fl_int[of 105, simplified] fl_int[of 115, simplified]

lemma fl_halves:
  "fl (1/2) = 1/2" "fl (15/2) = 15/2" "fl (45/2) = 45/2" "fl (75/2) = 75/2"
  "fl (105/2) = 105/2" "fl (135/2) = 135/2" "fl (165/2) = 165/2" "fl (195/2) = 195/2"
  using fl_half[of 1] fl_half[of 15] fl_half[of 45] fl_half[of 75] fl_half[of 105]
    fl_half[of 135] fl_half[of 165] fl_half[of 195]
  by simp_all

text \<open>Two roundings that are not exact, by evaluation.\<close>

lemma fl_rounded:
  "fl ((1 - 1 / 2 ^ 53) * 15) = 15 - 1 / 2 ^ 49"
  "fl (90 + (15 - 1 / 2 ^ 49)) = 105"
  by code_simp+

lemma fl_below_one: "fl (1 - 1 / 2 ^ 53) = 1 - 1 / 2 ^ 53"
  by (rule fl_exact[where m = "2 ^ 53 - 1" and k = "- 53"]) (simp_all add: power_int_minus)

lemma is_doubleI: "fl x = x \<Longrightarrow> \<bar>x\<bar> \<le> 115 \<Longrightarrow> is_double x"
proof -
  assume f: "fl x = x" and b: "\<bar>x\<bar> \<le> 115"
  have "(2::real) ^ 7 \<le> 2 ^ 1024" by (rule power_increasing) simp_all
  with b have "\<bar>x\<bar> < 2 ^ 1024" by simp
  with f show ?thesis by (simp add: is_double_def)
qed

lemma is_double_values: "is_double 0" "is_double (1/2)" "is_double 100" "is_double (1 - 1 / 2 ^ 53)"
proof -
  show "is_double 0" by (rule is_doubleI) (simp_all add: fl_def)
  show "is_double (1/2)" by (rule is_doubleI) (simp_all add: fl_halves)
  show "is_double 100" by (rule is_doubleI) (simp_all add: fl_ints)
  show "is_double (1 - 1 / 2 ^ 53)"
  proof (rule is_doubleI)
    show "fl (1 - 1 / 2 ^ 53) = 1 - 1 / 2 ^ 53" by (rule fl_below_one)
    show "\<bar>1 - 1 / 2 ^ 53 :: real\<bar> \<le> 115" by simp
  qed
qed

subsection \<open>Rendering changes neither the user nor the page\<close>

lemmas model_defs =
  app_init_def fire_def render_def mounts_def animate_presence_def exit_complete_def
  exiting_def page_children_def page_effect_def handleLogin_def
  googleOnSuccess_def googleOnSuccess_settled_def drop_task_def login_def onClose_def
  login_timeout_def js_or_def on_upload_def handleDrop_def handleFileSelect_def add_files_def
  slice_js_def upload_init_def handleNavigation_def logout_def startUpload_def
  handleMagicLink_def handleMagicLink_timeout_def googleOnError_def remove_file_def
  invoices_initial_def

lemma user_render: "user (render s) = user s"
  by (simp add: render_def mounts_def animate_presence_def)

lemma currentPage_render: "currentPage (render s) = currentPage s"
  by (simp add: render_def mounts_def animate_presence_def)

lemma page_children_render: "page_children (render s) = page_children s"
  by (simp add: page_children_def user_render currentPage_render)

lemma presented_render:
  "presented (render s) = (if exiting s \<noteq> [] then exiting s else page_children s)"
  by (simp add: render_def mounts_def animate_presence_def)

lemma upload_animate_presence: "upload (animate_presence s) = upload s"
  by (simp add: animate_presence_def)

lemma length_page_children: "length (page_children s) \<le> 1"
  by (simp add: page_children_def)

subsection \<open>The file list\<close>

lemma slice_js_prefix: "0 \<le> k \<Longrightarrow> slice_js 0 k xs = take (nat k) xs"
  by (simp add: slice_js_def Let_def min_def)

lemma add_files_take:
  "length prev \<le> 100 \<Longrightarrow> add_files prev added = prev @ take (100 - length prev) added"
  by (simp add: add_files_def slice_js_prefix nat_diff_distrib')

lemma length_add_files:
  "length prev \<le> 100 \<Longrightarrow> length (add_files prev added) = min 100 (length prev + length added)"
  by (simp add: add_files_take)

lemma length_remove_file: "length (remove_file i fs) \<le> length fs"
  unfolding remove_file_def
  by (metis length_map length_filter_le length_enumerate)

lemma files_ok_render: "files_ok s \<Longrightarrow> files_ok (render s)"
  by (simp add: files_ok_def render_def mounts_def upload_animate_presence upload_init_def
      split: option.splits)

lemma files_ok_on_upload:
  assumes "files_ok s"
    and "\<And>u. length (files u) \<le> 100 \<Longrightarrow> length (files (fst (f u))) \<le> 100"
  shows "files_ok (fst (on_upload f s))"
  using assms by (auto simp: files_ok_def on_upload_def split_beta split: option.splits)

lemma files_ok_handle: "files_ok s \<Longrightarrow> files_ok (fst (handle e s))"
proof (cases e)
  case (FetchSettles i outcome)
  then show "files_ok s \<Longrightarrow> files_ok (fst (handle e s))"
    by (auto simp: files_ok_def googleOnSuccess_settled_def drop_task_def onClose_def login_def
        split: fetch_outcome.splits option.splits prod.splits)
next
  case (LoginTimerFires i now)
  then show "files_ok s \<Longrightarrow> files_ok (fst (handle e s))"
    by (auto simp: files_ok_def login_timeout_def drop_task_def
        split: task.splits sum.splits option.splits)
next
  case (MagicLinkTimerFires i)
  then show "files_ok s \<Longrightarrow> files_ok (fst (handle e s))"
    by (auto simp: files_ok_def handleMagicLink_timeout_def drop_task_def onClose_def login_def
        split: task.splits option.splits prod.splits)
next
  case (DropFiles fs)
  then show "files_ok s \<Longrightarrow> files_ok (fst (handle e s))"
    by (auto intro!: files_ok_on_upload simp: handleDrop_def length_add_files)
next
  case (SelectFiles fs)
  then show "files_ok s \<Longrightarrow> files_ok (fst (handle e s))"
    by (auto intro!: files_ok_on_upload simp: handleFileSelect_def length_add_files)
next
  case (ClickRemove i)
  then show "files_ok s \<Longrightarrow> files_ok (fst (handle e s))"
    by (auto intro!: files_ok_on_upload order_trans[OF length_remove_file])
next
  case ClickProcess
  then show "files_ok s \<Longrightarrow> files_ok (fst (handle e s))"
    by (auto intro!: files_ok_on_upload simp: startUpload_def)
next
  case (IntervalFires r)
  then show "files_ok s \<Longrightarrow> files_ok (fst (handle e s))"
    by (auto intro!: files_ok_on_upload simp: tick_def)
qed (auto simp: files_ok_def on_upload_def split_beta handleLogin_def onClose_def
      handleMagicLink_def googleOnSuccess_def googleOnError_def handleNavigation_def logout_def
      exit_complete_def split: option.splits)

lemma files_ok_page_effect: "files_ok s \<Longrightarrow> files_ok (page_effect s)"
  by (simp add: files_ok_def page_effect_def)

lemma files_ok_fire: "files_ok s \<Longrightarrow> files_ok (fst (fire e s))"
  using files_ok_handle[of s e] files_ok_render[of "fst (handle e s)"]
  by (simp add: fire_def split_beta)

lemma reachable_files_ok: "reachable s \<Longrightarrow> files_ok s"
proof (induction rule: reachable.induct)
  case start
  show ?case by (simp add: files_ok_def app_init_def)
next
  case (event s e)
  then show ?case by (simp add: files_ok_fire)
next
  case (effect s)
  then show ?case by (simp add: files_ok_render files_ok_page_effect)
qed

lemma reachable_run: "reachable s \<Longrightarrow> reachable (run es s)"
proof (induction es arbitrary: s)
  case Nil
  then show ?case by simp
next
  case (Cons e es)
  from Cons.prems have "reachable (fst (fire e s))" by (rule reachable.event)
  then have "reachable (render (page_effect (fst (fire e s))))" by (rule reachable.effect)
  then show ?case using Cons.IH by simp
qed

text \<open>
  C1. From a file list of at most 100 entries, \<open>handleDrop\<close> and \<open>handleFileSelect\<close> append
  the first \<open>100 - length\<close> of the new files, so the new length is the minimum of 100 and
  the sum of both lengths; and in every reachable state of the application, in particular
  after every sequence of events from the initial state, the file list of the upload page
  has at most 100 entries.
\<close>

theorem files_capped_at_100:
  "(length (files u) \<le> 100 \<longrightarrow>
      files (fst (handleDrop added u)) = files u @ take (100 - length (files u)) added \<and>
      files (fst (handleFileSelect added u)) = files u @ take (100 - length (files u)) added \<and>
      length (files (fst (handleDrop added u))) = min 100 (length (files u) + length added) \<and>
      length (files (fst (handleFileSelect added u))) = min 100 (length (files u) + length added))
   \<and> (reachable s \<longrightarrow> upload s = Some v \<longrightarrow> length (files v) \<le> 100)
   \<and> (upload (run es app_init) = Some w \<longrightarrow> length (files w) \<le> 100)"
proof (intro conjI impI)
  assume le: "length (files u) \<le> 100"
  show "files (fst (handleDrop added u)) = files u @ take (100 - length (files u)) added"
    by (simp add: handleDrop_def add_files_take[OF le])
  show "files (fst (handleFileSelect added u)) = files u @ take (100 - length (files u)) added"
    by (simp add: handleFileSelect_def add_files_take[OF le])
  show "length (files (fst (handleDrop added u))) = min 100 (length (files u) + length added)"
    by (simp add: handleDrop_def length_add_files[OF le])
  show "length (files (fst (handleFileSelect added u))) = min 100 (length (files u) + length added)"
    by (simp add: handleFileSelect_def length_add_files[OF le])
next
  assume "reachable s" and "upload s = Some v"
  then show "length (files v) \<le> 100"
    using reachable_files_ok[of s] by (simp add: files_ok_def)
next
  assume "upload (run es app_init) = Some w"
  moreover have "reachable (run es app_init)"
    by (rule reachable_run) (rule reachable.start)
  ultimately show "length (files w) \<le> 100"
    using reachable_files_ok[of "run es app_init"] by (simp add: files_ok_def)
qed

theorem files_capped_at_100_witness:
  "length (files example_upload) \<le> 100 \<and>
   files (fst (handleDrop [example_file] example_upload)) = [example_file, example_file, example_file] \<and>
   length (files (fst (handleFileSelect [example_file] example_upload))) = 3 \<and>
   length (files example_full) \<le> 100 \<and>
   files (fst (handleDrop [example_file, example_file] example_full)) = files example_full \<and>
   length (files (fst (handleFileSelect [example_file] example_full))) = 100 \<and>
   reachable (run example_events app_init) \<and>
   upload (run example_events app_init) = Some (fst (handleDrop [example_file] example_upload)) \<and>
   length (files (fst (handleDrop [example_file] example_upload))) \<le> 100"
proof -
  have le: "length (files example_upload) \<le> 100"
    by (simp add: example_upload_def upload_init_def)
  have full: "length (files example_full) = 100"
    by (simp add: example_full_def)
  have r: "reachable (run example_events app_init)"
    by (rule reachable_run) (rule reachable.start)
  have u: "upload (run example_events app_init) = Some (fst (handleDrop [example_file] example_upload))"
    by (simp add: example_events_def example_login_def example_signin_def example_upload_def
        model_defs)
  from le r u
    files_capped_at_100[of example_upload "[example_file]" "run example_events app_init"
      "fst (handleDrop [example_file] example_upload)" example_events
      "fst (handleDrop [example_file] example_upload)"]
  have a: "files (fst (handleDrop [example_file] example_upload)) = [example_file, example_file, example_file]"
    and b: "length (files (fst (handleFileSelect [example_file] example_upload))) = 3"
    and c: "length (files (fst (handleDrop [example_file] example_upload))) \<le> 100"
    by (simp_all add: example_upload_def upload_init_def)
  from full
    files_capped_at_100[of example_full "[example_file, example_file]" app_init upload_init "[]"
      upload_init]
    files_capped_at_100[of example_full "[example_file]" app_init upload_init "[]" upload_init]
  have d: "files (fst (handleDrop [example_file, example_file] example_full)) = files example_full"
    and e: "length (files (fst (handleFileSelect [example_file] example_full))) = 100"
    by simp_all
  from le full r u a b c d e show ?thesis by simp
qed

subsection \<open>The simulated login\<close>

lemma js_get_defined:
  "data \<noteq> JNull \<Longrightarrow> data \<noteq> JUndefined \<Longrightarrow> \<exists>em. js_get k data = Inr em"
  by (cases data) simp_all

text \<open>
  The magic-link path, run as a whole: a second submit while the button is disabled and a
  submit of an invalid address do nothing.
\<close>

lemma magic_link_run:
  "user (run [ClickSignIn, ClickContinueWithEmail, ChangeEmail ''a@b.c'', SubmitMagicLink,
              SubmitMagicLink, MagicLinkTimerFires 0, LoginTimerFires 0 2500, ExitComplete] app_init) =
     Some \<lparr>user_id = 1, user_email = JStr ''a@b.c'', user_name = ''John Doe'',
           user_plan = ''trial'', user_credits = 50, user_trialEnds = 1209602500\<rparr>"
  "tasks (run [ClickSignIn, ClickContinueWithEmail, ChangeEmail ''a@b.c'', SubmitMagicLink,
              SubmitMagicLink] app_init) = [MagicLinkTimer ''a@b.c'']"
  "tasks (run [ClickSignIn, ClickContinueWithEmail, ChangeEmail ''abc'', SubmitMagicLink]
              app_init) = []"
  by (simp_all add: model_defs valid_email_def valid_label_def is_local_char_def is_alnum_def)

text \<open>
  C2, as amended. For every method and every data argument other than \<open>null\<close> and
  \<open>undefined\<close>, \<open>login\<close> performs no network request: it sets the loading flag and arms a
  timer of 1000 ms. When that timer fires at time \<open>now\<close>, the user record becomes the fixed
  record with id 1, name John Doe, plan trial, 50 credits, the email \<open>data.email\<close> if that
  value is truthy and \<open>user@example.com\<close> otherwise, and \<open>trialEnds\<close> equal to \<open>now\<close> plus
  14 days (1209600000 ms), and the loading flag is cleared.
\<close>

theorem login_sets_mock_user:
  assumes "data \<noteq> JNull" and "data \<noteq> JUndefined"
  shows "\<exists>em. js_get ''email'' data = Inr em \<and>
           login method data s =
             (s\<lparr>loading := True, tasks := tasks s @ [LoginTimer data]\<rparr>, [SetTimeout 1000]) \<and>
           filter is_network (snd (login method data s)) = [] \<and>
           login_timeout now data s' =
             Inr (s'\<lparr>user := Some \<lparr>user_id = 1,
                                     user_email = (if truthy em then em else JStr ''user@example.com''),
                                     user_name = ''John Doe'', user_plan = ''trial'',
                                     user_credits = 50,
                                     user_trialEnds = now + 1209600000\<rparr>,
                      loading := False\<rparr>) \<and>
           handle (LoginTimerFires (length (tasks s)) now) (fst (login method data s)) =
             (s\<lparr>user := Some \<lparr>user_id = 1,
                                user_email = (if truthy em then em else JStr ''user@example.com''),
                                user_name = ''John Doe'', user_plan = ''trial'',
                                user_credits = 50,
                                user_trialEnds = now + 1209600000\<rparr>,
                 loading := False\<rparr>, [])"
proof -
  from assms obtain em where em: "js_get ''email'' data = Inr em"
    using js_get_defined by blast
  have call: "login method data s =
      (s\<lparr>loading := True, tasks := tasks s @ [LoginTimer data]\<rparr>, [SetTimeout 1000])"
    by (simp add: login_def)
  have net: "filter is_network (snd (login method data s)) = []"
    by (simp add: login_def)
  have cb: "login_timeout now data s' =
             Inr (s'\<lparr>user := Some \<lparr>user_id = 1,
                                     user_email = (if truthy em then em else JStr ''user@example.com''),
                                     user_name = ''John Doe'', user_plan = ''trial'',
                                     user_credits = 50,
                                     user_trialEnds = now + 1209600000\<rparr>,
                      loading := False\<rparr>)" for s'
    by (simp add: login_timeout_def em js_or_def)
  have fired: "handle (LoginTimerFires (length (tasks s)) now) (fst (login method data s)) =
             (s\<lparr>user := Some \<lparr>user_id = 1,
                                user_email = (if truthy em then em else JStr ''user@example.com''),
                                user_name = ''John Doe'', user_plan = ''trial'',
                                user_credits = 50,
                                user_trialEnds = now + 1209600000\<rparr>,
                 loading := False\<rparr>, [])"
    by (simp add: call cb drop_task_def)
  from em call net cb fired show ?thesis by blast
qed

theorem login_sets_mock_user_witness:
  "example_data \<noteq> JNull \<and> example_data \<noteq> JUndefined \<and>
   js_get ''email'' example_data = Inr (JStr ''a@b.c'') \<and>
   snd (login ''magic-link'' example_data app_init) = [SetTimeout 1000] \<and>
   fst (handle (LoginTimerFires 0 5000) (fst (login ''magic-link'' example_data app_init))) =
     app_init\<lparr>user := Some \<lparr>user_id = 1, user_email = JStr ''a@b.c'',
                              user_name = ''John Doe'', user_plan = ''trial'',
                              user_credits = 50, user_trialEnds = 1209605000\<rparr>,
               loading := False\<rparr>"
proof -
  have a: "example_data \<noteq> JNull" and b: "example_data \<noteq> JUndefined"
    by (simp_all add: example_data_def)
  have t: "length (tasks app_init) = 0"
    by (simp add: app_init_def)
  from login_sets_mock_user[OF a b, of "''magic-link''" app_init 5000]
  obtain em where e: "js_get ''email'' example_data = Inr em"
    and c: "login ''magic-link'' example_data app_init =
      (app_init\<lparr>loading := True, tasks := tasks app_init @ [LoginTimer example_data]\<rparr>,
       [SetTimeout 1000])"
    and h: "handle (LoginTimerFires (length (tasks app_init)) 5000)
              (fst (login ''magic-link'' example_data app_init)) =
            (app_init\<lparr>user := Some \<lparr>user_id = 1,
                 user_email = (if truthy em then em else JStr ''user@example.com''),
                 user_name = ''John Doe'', user_plan = ''trial'', user_credits = 50,
                 user_trialEnds = 5000 + 1209600000\<rparr>,
               loading := False\<rparr>, [])"
    by blast
  from e have em: "em = JStr ''a@b.c''"
    by (simp add: example_data_def)
  have f: "fst (handle (LoginTimerFires 0 5000) (fst (login ''magic-link'' example_data app_init))) =
     app_init\<lparr>user := Some \<lparr>user_id = 1, user_email = JStr ''a@b.c'',
                              user_name = ''John Doe'', user_plan = ''trial'',
                              user_credits = 50, user_trialEnds = 1209605000\<rparr>,
               loading := False\<rparr>"
    using h unfolding t em by simp
  have g: "snd (login ''magic-link'' example_data app_init) = [SetTimeout 1000]"
    unfolding c by simp
  from a b e em f g show ?thesis by simp
qed


text \<open>
  C2 as stated fails for the data argument \<open>null\<close>, which the Google path passes on when
  the response body is the JSON text \<open>null\<close>: the timer callback fails on \<open>data.email\<close>,
  the user record stays \<open>null\<close> and the loading flag stays set.
\<close>

theorem login_null_data_counterexample:
  "login_timeout 1000 JNull (fst (login ''google'' JNull app_init)) = Inl TypeError \<and>
   user (run example_null_login app_init) = None \<and>
   loading (run example_null_login app_init) = True"
  by (simp add: example_null_login_def model_defs)

subsection \<open>The progress animation\<close>

lemma tick_progress:
  "uploadProgress u < 100 \<Longrightarrow>
   tick rnd u = (u\<lparr>uploadProgress := fl (uploadProgress u + fl (rnd * 15))\<rparr>, [])"
  by (simp add: tick_def js_add_def js_mul_def)

lemma tick_progress_value:
  "uploadProgress u < 100 \<Longrightarrow>
   uploadProgress (fst (tick rnd u)) = fl (uploadProgress u + fl (rnd * 15))"
  by (simp add: tick_progress)

text \<open>The product of a draw and 15 is a double in \<open>[0, 15)\<close>.\<close>

lemma draw_product:
  assumes "is_double rnd" and "0 \<le> rnd" and "rnd < 1"
  shows "0 \<le> js_mul rnd 15" and "js_mul rnd 15 < 15"
proof -
  from assms(2) have "0 \<le> rnd * 15" by simp
  then show "0 \<le> js_mul rnd 15" unfolding js_mul_def by (rule fl_nonneg)
  show "js_mul rnd 15 < 15"
  proof (cases "rnd = 0")
    case True
    then show ?thesis by (simp add: js_mul_def fl_def)
  next
    case False
    with assms have "rnd \<le> 1 - 1 / 2 ^ 53"
      by (intro double_below_one) (simp_all add: is_double_def)
    then have "rnd * 15 \<le> (1 - 1 / 2 ^ 53) * 15" by (intro mult_right_mono) simp_all
    with \<open>0 \<le> rnd * 15\<close> have "fl (rnd * 15) \<le> fl ((1 - 1 / 2 ^ 53) * 15)" by (rule fl_mono)
    also have "\<dots> = 15 - 1 / 2 ^ 49" by (rule fl_rounded)
    also have "\<dots> < 15" by simp
    finally show ?thesis by (simp only: js_mul_def)
  qed
qed

text \<open>The sum of a progress below 100 and an increment of at most 15.\<close>

lemma progress_sum:
  assumes "is_double p" and "0 \<le> p" and "p \<le> 100" and "0 \<le> r" and "r \<le> 15"
  shows "p \<le> js_add p r" and "js_add p r \<le> js_add p 15" and "js_add p r \<le> 115"
    and "is_double (js_add p r)"
proof -
  from assms(1) have fp: "fl p = p" by (simp add: is_double_def)
  from assms(2,4) have "fl p \<le> fl (p + r)" by (intro fl_mono) simp_all
  then show lo: "p \<le> js_add p r" by (simp add: fp js_add_def)
  from assms(2,4,5) have "fl (p + r) \<le> fl (p + 15)" by (intro fl_mono) simp_all
  then show "js_add p r \<le> js_add p 15" by (simp add: js_add_def)
  from assms(2,3,4,5) have "fl (p + r) \<le> fl 115" by (intro fl_mono) simp_all
  then show hi: "js_add p r \<le> 115" by (simp add: js_add_def fl_ints)
  from assms(2,4) have "fl (fl (p + r)) = fl (p + r)" by (intro fl_fl) simp
  moreover from lo hi assms(2) have "\<bar>js_add p r\<bar> \<le> 115" by simp
  ultimately show "is_double (js_add p r)" by (intro is_doubleI) (simp_all add: js_add_def)
qed

lemma progress_ok_tick:
  assumes "is_double (uploadProgress u) \<and> 0 \<le> uploadProgress u \<and> uploadProgress u \<le> 115"
    and "is_double rnd" and "0 \<le> rnd" and "rnd < 1"
  shows "is_double (uploadProgress (fst (tick rnd u))) \<and> 0 \<le> uploadProgress (fst (tick rnd u)) \<and>
    uploadProgress (fst (tick rnd u)) \<le> 115"
proof (cases "uploadProgress u \<ge> 100")
  case True
  then show ?thesis by (simp add: tick_def is_double_values)
next
  case False
  from draw_product[OF assms(2-4)] have r: "0 \<le> js_mul rnd 15" "js_mul rnd 15 \<le> 15" by simp_all
  from False assms(1) have p: "is_double (uploadProgress u)" "0 \<le> uploadProgress u"
    "uploadProgress u \<le> 100" by simp_all
  from progress_sum[OF p r] p(2) False show ?thesis by (simp add: tick_def)
qed

lemma progress_ok_render: "progress_ok s \<Longrightarrow> progress_ok (render s)"
  by (simp add: progress_ok_def render_def mounts_def upload_animate_presence upload_init_def
      is_double_values split: option.splits)

lemma progress_ok_on_upload:
  assumes "progress_ok s"
    and "\<And>u. is_double (uploadProgress u) \<and> 0 \<le> uploadProgress u \<and> uploadProgress u \<le> 115 \<Longrightarrow>
      is_double (uploadProgress (fst (f u))) \<and> 0 \<le> uploadProgress (fst (f u)) \<and>
      uploadProgress (fst (f u)) \<le> 115"
  shows "progress_ok (fst (on_upload f s))"
  using assms by (auto simp: progress_ok_def on_upload_def split_beta split: option.splits)

lemma progress_ok_handle: "progress_ok s \<Longrightarrow> progress_ok (fst (handle e s))"
proof (cases e)
  case (FetchSettles i outcome)
  then show "progress_ok s \<Longrightarrow> progress_ok (fst (handle e s))"
    by (auto simp: progress_ok_def googleOnSuccess_settled_def drop_task_def onClose_def login_def
        split: fetch_outcome.splits option.splits prod.splits)
next
  case (LoginTimerFires i now)
  then show "progress_ok s \<Longrightarrow> progress_ok (fst (handle e s))"
    by (auto simp: progress_ok_def login_timeout_def drop_task_def
        split: task.splits sum.splits option.splits)
next
  case (MagicLinkTimerFires i)
  then show "progress_ok s \<Longrightarrow> progress_ok (fst (handle e s))"
    by (auto simp: progress_ok_def handleMagicLink_timeout_def drop_task_def onClose_def login_def
        split: task.splits option.splits prod.splits)
next
  case (DropFiles fs)
  then show "progress_ok s \<Longrightarrow> progress_ok (fst (handle e s))"
    by (auto intro!: progress_ok_on_upload simp: handleDrop_def)
next
  case (SelectFiles fs)
  then show "progress_ok s \<Longrightarrow> progress_ok (fst (handle e s))"
    by (auto intro!: progress_ok_on_upload simp: handleFileSelect_def)
next
  case ClickProcess
  then show "progress_ok s \<Longrightarrow> progress_ok (fst (handle e s))"
    by (auto intro!: progress_ok_on_upload simp: startUpload_def is_double_values)
next
  case (IntervalFires r)
  then show "progress_ok s \<Longrightarrow> progress_ok (fst (handle e s))"
    using progress_ok_tick by (auto intro!: progress_ok_on_upload)
qed (auto simp: progress_ok_def on_upload_def split_beta handleLogin_def onClose_def
      handleMagicLink_def googleOnSuccess_def googleOnError_def handleNavigation_def logout_def
      exit_complete_def split: option.splits)

lemma reachable_progress_ok: "reachable s \<Longrightarrow> progress_ok s"
proof (induction rule: reachable.induct)
  case start
  show ?case by (simp add: progress_ok_def app_init_def)
next
  case (event s e)
  from progress_ok_handle[OF event.IH, of e] show ?case
    by (simp add: fire_def split_beta progress_ok_render)
next
  case (effect s)
  then have "progress_ok (page_effect s)" by (simp add: progress_ok_def page_effect_def)
  then show ?case by (rule progress_ok_render)
qed

lemma ticks_example_draws:
  "ticks example_draws (u\<lparr>isUploading := True, uploadProgress := 0, interval := True\<rparr>) =
     u\<lparr>isUploading := True, uploadProgress := 105, interval := True\<rparr>"
  by (simp add: example_draws_def tick_def js_add_def js_mul_def fl_halves fl_ints)

lemma example_at_90:
  "example_at_90 = example_upload\<lparr>isUploading := True, uploadProgress := 90, interval := True\<rparr>"
  by (simp add: example_at_90_def example_draws_def example_started_def example_upload_def
      startUpload_def tick_def js_add_def js_mul_def fl_halves fl_ints)

lemma run_overshoot:
  "upload (run example_overshoot app_init) = Some (ticks example_draws example_started)"
  by (simp add: example_overshoot_def example_login_def example_signin_def example_draws_def
      example_started_def example_upload_def model_defs tick_def js_add_def js_mul_def
      fl_halves fl_ints is_double_values)

text \<open>
  C3, as amended. \<open>startUpload\<close> on a non-empty file list sets the progress to 0, sets the
  uploading flag and arms the interval (on an empty list it does nothing). A tick at a
  progress \<open>p < 100\<close> yields the double sum of \<open>p\<close> and \<open>r\<close>, where \<open>r\<close>, the double product of
  the draw and 15, lies in \<open>[0, 15)\<close>; the new progress is at least \<open>p\<close>, at most the double
  sum of \<open>p\<close> and 15, and at most 115; nothing else changes. A tick at \<open>p \<ge> 100\<close> yields
  exactly 100, clears the interval and the uploading flag. The progress after a tick does
  not depend on the files. Progress is non-decreasing across a tick that starts at
  \<open>p \<le> 100\<close>; a tick that starts above 100 lowers it to 100. In every reachable state the
  progress is a double between 0 and 115, as the tick clauses require.
\<close>

theorem upload_progress_step:
  "(files u \<noteq> [] \<longrightarrow>
      startUpload u = (u\<lparr>isUploading := True, uploadProgress := 0, interval := True\<rparr>, [SetInterval 200]))
   \<and> (files u = [] \<longrightarrow> startUpload u = (u, []))
   \<and> (is_double rnd \<and> 0 \<le> rnd \<and> rnd < 1 \<and>
       is_double (uploadProgress u) \<and> 0 \<le> uploadProgress u \<and> uploadProgress u < 100 \<longrightarrow>
        0 \<le> js_mul rnd 15 \<and> js_mul rnd 15 < 15 \<and>
        tick rnd u = (u\<lparr>uploadProgress := js_add (uploadProgress u) (js_mul rnd 15)\<rparr>, []) \<and>
        uploadProgress u \<le> js_add (uploadProgress u) (js_mul rnd 15) \<and>
        js_add (uploadProgress u) (js_mul rnd 15) \<le> js_add (uploadProgress u) 15 \<and>
        js_add (uploadProgress u) (js_mul rnd 15) \<le> 115)
   \<and> (uploadProgress u \<ge> 100 \<longrightarrow>
        tick rnd u = (u\<lparr>interval := False, isUploading := False, uploadProgress := 100\<rparr>, [ClearInterval]))
   \<and> uploadProgress (fst (tick rnd (u\<lparr>files := fs\<rparr>))) = uploadProgress (fst (tick rnd u))
   \<and> (is_double rnd \<and> 0 \<le> rnd \<and> rnd < 1 \<and>
       is_double (uploadProgress u) \<and> 0 \<le> uploadProgress u \<and> uploadProgress u \<le> 100 \<longrightarrow>
        uploadProgress u \<le> uploadProgress (fst (tick rnd u)))
   \<and> (uploadProgress u > 100 \<longrightarrow> uploadProgress (fst (tick rnd u)) < uploadProgress u)
   \<and> (reachable s \<longrightarrow> upload s = Some v \<longrightarrow>
        is_double (uploadProgress v) \<and> 0 \<le> uploadProgress v \<and> uploadProgress v \<le> 115)"
proof (intro conjI impI)
  assume "files u \<noteq> []"
  then show "startUpload u =
      (u\<lparr>isUploading := True, uploadProgress := 0, interval := True\<rparr>, [SetInterval 200])"
    by (simp add: startUpload_def)
next
  assume "files u = []"
  then show "startUpload u = (u, [])"
    by (simp add: startUpload_def)
next
  assume a: "is_double rnd \<and> 0 \<le> rnd \<and> rnd < 1 \<and>
       is_double (uploadProgress u) \<and> 0 \<le> uploadProgress u \<and> uploadProgress u < 100"
  then have d: "is_double rnd" "0 \<le> rnd" "rnd < 1" by simp_all
  from draw_product[OF d] show r0: "0 \<le> js_mul rnd 15" and r1: "js_mul rnd 15 < 15" .
  from a show "tick rnd u = (u\<lparr>uploadProgress := js_add (uploadProgress u) (js_mul rnd 15)\<rparr>, [])"
    by (simp add: tick_def)
  from a have p: "is_double (uploadProgress u)" "0 \<le> uploadProgress u" "uploadProgress u \<le> 100"
    by simp_all
  from r1 have r2: "js_mul rnd 15 \<le> 15" by simp
  from progress_sum[OF p r0 r2]
  show "uploadProgress u \<le> js_add (uploadProgress u) (js_mul rnd 15)"
    and "js_add (uploadProgress u) (js_mul rnd 15) \<le> js_add (uploadProgress u) 15"
    and "js_add (uploadProgress u) (js_mul rnd 15) \<le> 115"
    by simp_all
next
  assume "uploadProgress u \<ge> 100"
  then show "tick rnd u =
      (u\<lparr>interval := False, isUploading := False, uploadProgress := 100\<rparr>, [ClearInterval])"
    by (simp add: tick_def)
next
  show "uploadProgress (fst (tick rnd (u\<lparr>files := fs\<rparr>))) = uploadProgress (fst (tick rnd u))"
    by (simp add: tick_def)
next
  assume a: "is_double rnd \<and> 0 \<le> rnd \<and> rnd < 1 \<and>
       is_double (uploadProgress u) \<and> 0 \<le> uploadProgress u \<and> uploadProgress u \<le> 100"
  show "uploadProgress u \<le> uploadProgress (fst (tick rnd u))"
  proof (cases "uploadProgress u \<ge> 100")
    case True
    with a show ?thesis by (simp add: tick_def)
  next
    case False
    from a have d: "is_double rnd" "0 \<le> rnd" "rnd < 1" by simp_all
    from draw_product[OF d] have r: "0 \<le> js_mul rnd 15" "js_mul rnd 15 \<le> 15" by simp_all
    from a have p: "is_double (uploadProgress u)" "0 \<le> uploadProgress u" "uploadProgress u \<le> 100"
      by simp_all
    from progress_sum(1)[OF p r] False show ?thesis by (simp add: tick_def)
  qed
next
  assume "uploadProgress u > 100"
  then show "uploadProgress (fst (tick rnd u)) < uploadProgress u"
    by (simp add: tick_def)
next
  assume "reachable s" and "upload s = Some v"
  with reachable_progress_ok[of s]
  show "is_double (uploadProgress v)" and "0 \<le> uploadProgress v" and "uploadProgress v \<le> 115"
    by (simp_all add: progress_ok_def)
qed

theorem upload_progress_step_witness:
  "files example_upload \<noteq> [] \<and>
   startUpload example_upload =
     (example_upload\<lparr>isUploading := True, uploadProgress := 0, interval := True\<rparr>, [SetInterval 200]) \<and>
   files upload_init = [] \<and> startUpload upload_init = (upload_init, []) \<and>
   is_double (1/2) \<and> (0::real) \<le> 1/2 \<and> (1/2::real) < 1 \<and>
   is_double (uploadProgress example_started) \<and> 0 \<le> uploadProgress example_started \<and>
   uploadProgress example_started < 100 \<and>
   tick (1/2) example_started = (example_started\<lparr>uploadProgress := 15/2\<rparr>, []) \<and>
   uploadProgress example_started \<le> uploadProgress (fst (tick (1/2) example_started)) \<and>
   uploadProgress (ticks example_draws example_started) > 100 \<and>
   tick (1/2) (ticks example_draws example_started) =
     (example_started\<lparr>interval := False, isUploading := False, uploadProgress := 100\<rparr>, [ClearInterval]) \<and>
   uploadProgress (fst (tick (1/2) (ticks example_draws example_started)))
     < uploadProgress (ticks example_draws example_started) \<and>
   reachable (run example_overshoot app_init) \<and>
   upload (run example_overshoot app_init) = Some (ticks example_draws example_started) \<and>
   uploadProgress (ticks example_draws example_started) \<le> 115"
proof -
  have s: "example_started = example_upload\<lparr>isUploading := True, uploadProgress := 0, interval := True\<rparr>"
    by (simp add: example_started_def example_upload_def startUpload_def)
  have f: "files example_upload \<noteq> []" and e: "files upload_init = []"
    by (simp_all add: example_upload_def upload_init_def)
  have d: "is_double (1/2)" and d0: "is_double (uploadProgress example_started)"
    by (simp_all add: s is_double_values)
  have p0: "uploadProgress example_started < 100"
    and p1: "uploadProgress (ticks example_draws example_started) > 100"
    by (simp_all add: s ticks_example_draws)
  have r: "reachable (run example_overshoot app_init)"
    by (rule reachable_run) (rule reachable.start)
  from upload_progress_step[of example_upload "1/2" "[]" app_init upload_init]
    upload_progress_step[of upload_init "1/2" "[]" app_init upload_init]
    upload_progress_step[of example_started "1/2" "[]" app_init upload_init]
    upload_progress_step[of "ticks example_draws example_started" "1/2" "[]"
      "run example_overshoot app_init" "ticks example_draws example_started"]
    f e d d0 p0 p1 r run_overshoot
  show ?thesis
    by (simp add: s ticks_example_draws tick_def js_add_def js_mul_def fl_halves)
qed

text \<open>
  C3 as stated fails in two places. After \<open>startUpload\<close> and fourteen ticks that each draw
  \<open>1/2\<close> the progress is 105, and the next tick sets it to 100: progress decreases. And at
  the progress 90, reached after twelve such ticks, the draw \<open>1 - 2 ^ -53\<close> yields exactly
  105: the step is 15, which is not in \<open>[0, 15)\<close>.
\<close>

theorem progress_decreases_counterexample:
  "uploadProgress (ticks example_draws example_started) = 105 \<and>
   uploadProgress (fst (tick (1/2) (ticks example_draws example_started))) = 100 \<and>
   \<not> uploadProgress (ticks example_draws example_started)
       \<le> uploadProgress (fst (tick (1/2) (ticks example_draws example_started))) \<and>
   uploadProgress example_at_90 = 90 \<and>
   is_double (1 - 1 / 2 ^ 53) \<and> (0::real) \<le> 1 - 1 / 2 ^ 53 \<and> (1 - 1 / 2 ^ 53 :: real) < 1 \<and>
   uploadProgress (fst (tick (1 - 1 / 2 ^ 53) example_at_90)) = 105 \<and>
   uploadProgress (fst (tick (1 - 1 / 2 ^ 53) example_at_90)) - uploadProgress example_at_90 = 15"
proof -
  have s: "example_started = example_upload\<lparr>isUploading := True, uploadProgress := 0, interval := True\<rparr>"
    by (simp add: example_started_def example_upload_def startUpload_def)
  have a: "uploadProgress (ticks example_draws example_started) = 105"
    by (simp add: s ticks_example_draws)
  have b: "uploadProgress (fst (tick (1/2) (ticks example_draws example_started))) = 100"
    by (simp add: s ticks_example_draws tick_def)
  have p: "uploadProgress example_at_90 = 90"
    by (simp add: example_at_90)
  then have "uploadProgress example_at_90 < 100" by simp
  from tick_progress_value[OF this, of "1 - 1 / 2 ^ 53"]
  have "uploadProgress (fst (tick (1 - 1 / 2 ^ 53) example_at_90)) =
      fl (90 + fl ((1 - 1 / 2 ^ 53) * 15))"
    by (simp only: p)
  then have c: "uploadProgress (fst (tick (1 - 1 / 2 ^ 53) example_at_90)) = 105"
    by (simp only: fl_rounded)
  from a b p c is_double_values(4) show ?thesis by simp
qed

text \<open>
  C8. The increment is not clamped: after \<open>startUpload\<close> on a non-empty file list there are
  draws, doubles in \<open>[0, 1)\<close>, after whose ticks the progress is above 100 with the
  uploading flag still set and the interval still armed; the tick after that, whatever it
  draws, sets the progress to exactly 100, clears the flag and stops the interval. Such a
  state is reached by a run of the application from its initial state.
\<close>

theorem progress_overshoots_100:
  assumes "files u \<noteq> []"
  shows "(\<exists>rs. rs \<noteq> [] \<and> list_all (\<lambda>r. is_double r \<and> 0 \<le> r \<and> r < 1) rs \<and>
           100 < uploadProgress (ticks rs (fst (startUpload u))) \<and>
           isUploading (ticks rs (fst (startUpload u))) \<and>
           interval (ticks rs (fst (startUpload u))) \<and>
           (\<forall>rnd. uploadProgress (fst (tick rnd (ticks rs (fst (startUpload u))))) = 100 \<and>
                  \<not> isUploading (fst (tick rnd (ticks rs (fst (startUpload u))))) \<and>
                  \<not> interval (fst (tick rnd (ticks rs (fst (startUpload u))))))) \<and>
         (\<exists>es v. upload (run es app_init) = Some v \<and> 100 < uploadProgress v \<and>
                 isUploading v \<and> interval v)"
proof
  let ?v = "ticks example_draws (fst (startUpload u))"
  from assms have v: "?v = u\<lparr>isUploading := True, uploadProgress := 105, interval := True\<rparr>"
    by (simp add: startUpload_def ticks_example_draws)
  have "example_draws \<noteq> []" and "list_all (\<lambda>r. is_double r \<and> 0 \<le> r \<and> r < 1) example_draws"
    by (simp_all add: example_draws_def is_double_values)
  moreover have "100 < uploadProgress ?v" and "isUploading ?v" and "interval ?v"
    by (simp_all add: v)
  moreover have "\<forall>rnd. uploadProgress (fst (tick rnd ?v)) = 100 \<and>
      \<not> isUploading (fst (tick rnd ?v)) \<and> \<not> interval (fst (tick rnd ?v))"
    by (simp add: v tick_def)
  ultimately show "\<exists>rs. rs \<noteq> [] \<and> list_all (\<lambda>r. is_double r \<and> 0 \<le> r \<and> r < 1) rs \<and>
           100 < uploadProgress (ticks rs (fst (startUpload u))) \<and>
           isUploading (ticks rs (fst (startUpload u))) \<and>
           interval (ticks rs (fst (startUpload u))) \<and>
           (\<forall>rnd. uploadProgress (fst (tick rnd (ticks rs (fst (startUpload u))))) = 100 \<and>
                  \<not> isUploading (fst (tick rnd (ticks rs (fst (startUpload u))))) \<and>
                  \<not> interval (fst (tick rnd (ticks rs (fst (startUpload u))))))"
    by blast
next
  let ?w = "ticks example_draws example_started"
  have w: "?w = example_upload\<lparr>isUploading := True, uploadProgress := 105, interval := True\<rparr>"
    by (simp add: example_started_def example_upload_def startUpload_def ticks_example_draws)
  have "100 < uploadProgress ?w" and "isUploading ?w" and "interval ?w"
    by (simp_all add: w)
  with run_overshoot
  show "\<exists>es v. upload (run es app_init) = Some v \<and> 100 < uploadProgress v \<and>
                 isUploading v \<and> interval v"
    by blast
qed

theorem progress_overshoots_100_witness:
  "files example_upload \<noteq> [] \<and>
   (\<exists>rs. rs \<noteq> [] \<and> list_all (\<lambda>r. is_double r \<and> 0 \<le> r \<and> r < 1) rs \<and>
      100 < uploadProgress (ticks rs example_started) \<and>
      isUploading (ticks rs example_started) \<and>
      \<not> isUploading (fst (tick 0 (ticks rs example_started))) \<and>
      uploadProgress (fst (tick 0 (ticks rs example_started))) = 100)"
proof -
  have f: "files example_upload \<noteq> []"
    by (simp add: example_upload_def)
  from progress_overshoots_100[OF f] f show ?thesis
    unfolding example_started_def by blast
qed

subsection \<open>Network requests\<close>

text \<open>
  C4. Whatever the event and the state, the network requests an event issues are none,
  except for the Google sign-in success handler on its button in the open modal, which issues
  exactly one: a POST to \<open>/api/auth/login\<close> whose JSON body carries the provider \<open>google\<close> and
  the credential of the Google response as \<open>token\<close>. The continuation of that handler,
  \<open>login\<close> and the magic-link handler with its timer issue none.
\<close>

theorem only_google_login_fetches:
  "filter is_network (snd (fire e s)) =
     (case e of
        GoogleSuccess cred \<Rightarrow>
          (if showAuthModal s \<and> mode s = ''login''
           then [Fetch ''/api/auth/login'' ''POST'' [(''Content-Type'', ''application/json'')]
                   (JObj [(''provider'', JStr ''google''), (''token'', JStr cred)])]
           else [])
      | _ \<Rightarrow> [])
   \<and> snd (googleOnSuccess c s) =
        [Fetch ''/api/auth/login'' ''POST'' [(''Content-Type'', ''application/json'')]
           (JObj [(''provider'', JStr ''google''), (''token'', JStr c)])]
   \<and> filter is_network (snd (googleOnSuccess_settled outcome s)) = []
   \<and> filter is_network (snd (login method data s)) = []
   \<and> filter is_network (snd (handleMagicLink s)) = []
   \<and> filter is_network (snd (handleMagicLink_timeout em s)) = []"
proof (intro conjI)
  show "filter is_network (snd (fire e s)) =
     (case e of
        GoogleSuccess cred \<Rightarrow>
          (if showAuthModal s \<and> mode s = ''login''
           then [Fetch ''/api/auth/login'' ''POST'' [(''Content-Type'', ''application/json'')]
                   (JObj [(''provider'', JStr ''google''), (''token'', JStr cred)])]
           else [])
      | _ \<Rightarrow> [])"
    by (cases e)
      (auto simp: fire_def split_beta on_upload_def handleMagicLink_def googleOnSuccess_def
        googleOnError_def googleOnSuccess_settled_def login_def login_timeout_def
        handleMagicLink_timeout_def handleDrop_def handleFileSelect_def startUpload_def tick_def
        exit_complete_def
        split: option.splits task.splits sum.splits fetch_outcome.splits)
  show "snd (googleOnSuccess c s) =
        [Fetch ''/api/auth/login'' ''POST'' [(''Content-Type'', ''application/json'')]
           (JObj [(''provider'', JStr ''google''), (''token'', JStr c)])]"
    by (simp add: googleOnSuccess_def)
  show "filter is_network (snd (googleOnSuccess_settled outcome s)) = []"
    by (simp add: googleOnSuccess_settled_def login_def split: fetch_outcome.splits option.splits)
  show "filter is_network (snd (login method data s)) = []"
    by (simp add: login_def)
  show "filter is_network (snd (handleMagicLink s)) = []"
    by (simp add: handleMagicLink_def)
  show "filter is_network (snd (handleMagicLink_timeout em s)) = []"
    by (simp add: handleMagicLink_timeout_def login_def)
qed

subsection \<open>The dashboard's invoice list\<close>

lemma dashboard_handle: "dashboard (fst (handle e s)) = dashboard s"
  by (cases e)
    (auto simp: on_upload_def split_beta handleLogin_def onClose_def handleMagicLink_def
      googleOnSuccess_def googleOnError_def googleOnSuccess_settled_def login_def
      login_timeout_def handleMagicLink_timeout_def drop_task_def handleNavigation_def logout_def
      exit_complete_def
      split: option.splits task.splits sum.splits fetch_outcome.splits)

lemma dash_ok_render:
  "dashboard s = None \<or> dashboard s = Some invoices_initial \<Longrightarrow> dash_ok (render s)"
proof -
  have "dashboard (animate_presence s) = dashboard s" by (simp add: animate_presence_def)
  then show "dashboard s = None \<or> dashboard s = Some invoices_initial \<Longrightarrow> dash_ok (render s)"
    by (auto simp: dash_ok_def render_def mounts_def)
qed

lemma dash_ok_cases: "dash_ok s \<Longrightarrow> dashboard s = None \<or> dashboard s = Some invoices_initial"
  by (simp add: dash_ok_def split: if_splits)

lemma reachable_dash_ok: "reachable s \<Longrightarrow> dash_ok s"
proof (induction rule: reachable.induct)
  case start
  show ?case by (simp add: dash_ok_def app_init_def)
next
  case (event s e)
  from event.IH have "dashboard (fst (handle e s)) = None \<or>
      dashboard (fst (handle e s)) = Some invoices_initial"
    unfolding dashboard_handle by (rule dash_ok_cases)
  then show ?case
    by (simp add: fire_def split_beta dash_ok_render)
next
  case (effect s)
  from effect.IH have "dashboard (page_effect s) = None \<or>
      dashboard (page_effect s) = Some invoices_initial"
    using dash_ok_cases[of s] by (simp add: page_effect_def)
  then show ?case by (rule dash_ok_render)
qed

text \<open>
  C5. In every reachable state in which the dashboard is in the document its invoice list
  is the initial literal, no event handler changes it, and the literal has three entries
  with the ids 1, 2, 3, the file names \<open>invoice-001.pdf\<close>, \<open>receipt-002.jpg\<close>, \<open>bill-003.png\<close>
  and the statuses \<open>completed\<close>, \<open>processing\<close>, \<open>failed\<close>.
\<close>

theorem dashboard_invoices_static:
  "(reachable s \<longrightarrow> DashboardView \<in> set (presented s) \<longrightarrow>
      dashboard s = Some invoices_initial)
   \<and> (reachable s \<longrightarrow> dashboard s = Some ivs \<longrightarrow> ivs = invoices_initial)
   \<and> dashboard (fst (handle e s)) = dashboard s
   \<and> length invoices_initial = 3
   \<and> map inv_id invoices_initial = [1, 2, 3]
   \<and> map inv_filename invoices_initial = [''invoice-001.pdf'', ''receipt-002.jpg'', ''bill-003.png'']
   \<and> map inv_status invoices_initial = [''completed'', ''processing'', ''failed'']"
proof (intro conjI impI)
  assume "reachable s" and "DashboardView \<in> set (presented s)"
  then show "dashboard s = Some invoices_initial"
    using reachable_dash_ok[of s] by (simp add: dash_ok_def)
next
  assume "reachable s" and "dashboard s = Some ivs"
  then show "ivs = invoices_initial"
    using dash_ok_cases[OF reachable_dash_ok, of s] by simp
next
  show "dashboard (fst (handle e s)) = dashboard s"
    by (rule dashboard_handle)
qed (simp_all add: invoices_initial_def)

theorem dashboard_invoices_static_witness:
  "reachable (run example_login app_init) \<and>
   DashboardView \<in> set (presented (run example_login app_init)) \<and>
   dashboard (run example_login app_init) = Some invoices_initial \<and>
   map inv_id invoices_initial = [1, 2, 3]"
proof -
  have r: "reachable (run example_login app_init)"
    by (rule reachable_run) (rule reachable.start)
  have d: "DashboardView \<in> set (presented (run example_login app_init))"
    by (simp add: example_login_def example_signin_def model_defs)
  from dashboard_invoices_static[of "run example_login app_init" invoices_initial ClickSignIn] r d
  show ?thesis by simp
qed

subsection \<open>Page selection and navigation\<close>

lemma presented_handle:
  "presented (fst (handle e s)) =
     (if e = ExitComplete \<and> exiting s \<noteq> [] then page_children s else presented s)"
  by (cases e)
    (auto simp: on_upload_def split_beta handleLogin_def onClose_def handleMagicLink_def
      googleOnSuccess_def googleOnError_def googleOnSuccess_settled_def login_def
      login_timeout_def handleMagicLink_timeout_def drop_task_def handleNavigation_def logout_def
      exit_complete_def
      split: option.splits task.splits sum.splits fetch_outcome.splits)

lemma length_exiting: "length (exiting s) \<le> length (presented s)"
  by (simp add: exiting_def)

lemma length_presented_render: "length (presented s) \<le> 1 \<Longrightarrow> length (presented (render s)) \<le> 1"
  using length_exiting[of s] length_page_children[of s] by (simp add: presented_render)

lemma render_settled: "exiting (render s) = [] \<Longrightarrow> presented (render s) = page_children (render s)"
  by (simp add: exiting_def page_children_render presented_render split: if_splits)

lemma reachable_presented:
  "reachable s \<Longrightarrow> length (presented s) \<le> 1 \<and> (exiting s = [] \<longrightarrow> presented s = page_children s)"
proof (induction rule: reachable.induct)
  case start
  show ?case by (simp add: app_init_def page_children_def exiting_def)
next
  case (event s e)
  from event.IH have "length (presented (fst (handle e s))) \<le> 1"
    using length_page_children[of s] by (simp add: presented_handle)
  then have "length (presented (render (fst (handle e s)))) \<le> 1"
    by (rule length_presented_render)
  with render_settled[of "fst (handle e s)"] show ?case
    by (simp add: fire_def split_beta)
next
  case (effect s)
  from effect.IH have "length (presented (page_effect s)) \<le> 1"
    by (simp add: page_effect_def)
  then have "length (presented (render (page_effect s))) \<le> 1"
    by (rule length_presented_render)
  with render_settled[of "page_effect s"] show ?case by simp
qed

lemma exiting_all:
  assumes "length (presented s) \<le> 1" and "exiting s \<noteq> []"
  shows "presented s = exiting s"
proof (cases "presented s")
  case Nil
  with assms(2) show ?thesis by (simp add: exiting_def)
next
  case (Cons v vs)
  with assms(1) have "vs = []" by simp
  with Cons assms(2) show ?thesis by (simp add: exiting_def split: if_splits)
qed

lemma presented_exit_complete: "presented (fst (fire ExitComplete s)) = page_children s"
  by (simp add: fire_def render_def mounts_def animate_presence_def exit_complete_def exiting_def
      page_children_def)

text \<open>
  C6, as amended. The landing view is selected, that is handed to \<open>AnimatePresence\<close> as its
  child, iff \<open>currentPage\<close> is \<open>landing\<close> and there is no user, the upload view iff it is
  \<open>upload\<close> and there is a user, the dashboard view iff it is \<open>dashboard\<close> and there is a
  user; at most one view is selected. In every reachable state at most one view is in the
  document: the selected ones if no view is exiting, and only the exiting view, with the
  selected one held back, while an exit animation plays. When the exit animation has
  completed the views in the document are the selected ones.
\<close>

theorem page_selection:
  "(LandingView \<in> set (page_children s) \<longleftrightarrow> currentPage s = ''landing'' \<and> user s = None)
   \<and> (UploadView \<in> set (page_children s) \<longleftrightarrow> currentPage s = ''upload'' \<and> user s \<noteq> None)
   \<and> (DashboardView \<in> set (page_children s) \<longleftrightarrow> currentPage s = ''dashboard'' \<and> user s \<noteq> None)
   \<and> length (page_children s) \<le> 1
   \<and> (reachable s \<longrightarrow> length (presented s) \<le> 1)
   \<and> (reachable s \<longrightarrow> exiting s = [] \<longrightarrow> presented s = page_children s)
   \<and> (reachable s \<longrightarrow> exiting s \<noteq> [] \<longrightarrow>
        presented s = exiting s \<and> set (presented s) \<inter> set (page_children s) = {})
   \<and> presented (fst (fire ExitComplete s)) = page_children s"
proof (intro conjI impI)
  assume r: "reachable s"
  from reachable_presented[OF r] show "length (presented s) \<le> 1" by simp
  {
    assume "exiting s = []"
    with reachable_presented[OF r] show "presented s = page_children s" by simp
  }
  {
    assume "exiting s \<noteq> []"
    with reachable_presented[OF r] show e: "presented s = exiting s"
      by (intro exiting_all) simp_all
    have "set (exiting s) \<inter> set (page_children s) = {}" by (auto simp: exiting_def)
    with e show "set (presented s) \<inter> set (page_children s) = {}" by simp
  }
next
  show "presented (fst (fire ExitComplete s)) = page_children s"
    by (rule presented_exit_complete)
qed (simp_all add: page_children_def)

theorem page_selection_witness:
  "reachable (run example_signin app_init) \<and>
   exiting (run example_signin app_init) \<noteq> [] \<and>
   presented (run example_signin app_init) = [LandingView] \<and>
   page_children (run example_signin app_init) = [DashboardView] \<and>
   reachable (run example_login app_init) \<and>
   exiting (run example_login app_init) = [] \<and>
   presented (run example_login app_init) = [DashboardView] \<and>
   page_children (run example_login app_init) = [DashboardView]"
proof -
  have r1: "reachable (run example_signin app_init)" and r2: "reachable (run example_login app_init)"
    by (rule reachable_run, rule reachable.start)+
  have e1: "exiting (run example_signin app_init) = [LandingView]"
    and c1: "page_children (run example_signin app_init) = [DashboardView]"
    by (simp_all add: example_signin_def model_defs)
  have e2: "exiting (run example_login app_init) = []"
    and c2: "page_children (run example_login app_init) = [DashboardView]"
    by (simp_all add: example_login_def example_signin_def model_defs)
  from page_selection[of "run example_signin app_init"] page_selection[of "run example_login app_init"]
    r1 r2 e1 c1 e2 c2
  show ?thesis by simp
qed

text \<open>
  C6 as stated fails while an exit animation plays: after a login, when the effect has
  set \<open>currentPage\<close> to \<open>dashboard\<close>, a user is present and the landing view is still in the
  document, the dashboard view is not yet.
\<close>

theorem page_selection_counterexample:
  "reachable (run example_signin app_init) \<and>
   user (run example_signin app_init) \<noteq> None \<and>
   currentPage (run example_signin app_init) = ''dashboard'' \<and>
   LandingView \<in> set (presented (run example_signin app_init)) \<and>
   DashboardView \<notin> set (presented (run example_signin app_init))"
proof -
  have "reachable (run example_signin app_init)"
    by (rule reachable_run) (rule reachable.start)
  then show ?thesis
    by (simp add: example_signin_def model_defs)
qed

text \<open>
  C7. \<open>Navigation\<close> renders \<open>null\<close> exactly when there is no user; with a user it renders
  the bar with the dashboard and upload buttons, the credits of the user, the user button
  and the logout button.
\<close>

theorem navigation_iff_user:
  "(Navigation s = None \<longleftrightarrow> user s = None)
   \<and> (user s = Some u \<longrightarrow>
        Navigation s =
          Some [NavButton ''dashboard'' (currentPage s = ''dashboard''),
                NavButton ''upload'' (currentPage s = ''upload''),
                CreditsText (user_credits u), UserButton, LogoutButton])"
  by (simp add: Navigation_def split: option.splits)

theorem navigation_iff_user_witness:
  "user (run example_login app_init) =
     Some \<lparr>user_id = 1, user_email = JStr ''a@b.c'', user_name = ''John Doe'',
           user_plan = ''trial'', user_credits = 50, user_trialEnds = 1209601000\<rparr> \<and>
   Navigation (run example_login app_init) =
     Some [NavButton ''dashboard'' True, NavButton ''upload'' False, CreditsText 50,
           UserButton, LogoutButton] \<and>
   Navigation app_init = None"
proof -
  have u: "user (run example_login app_init) =
     Some \<lparr>user_id = 1, user_email = JStr ''a@b.c'', user_name = ''John Doe'',
           user_plan = ''trial'', user_credits = 50, user_trialEnds = 1209601000\<rparr>"
    by (simp add: example_login_def example_signin_def model_defs)
  have p: "currentPage (run example_login app_init) = ''dashboard''"
    by (simp add: example_login_def example_signin_def model_defs)
  have n: "user app_init = None"
    by (simp add: app_init_def)
  from navigation_iff_user[of "run example_login app_init"
      "\<lparr>user_id = 1, user_email = JStr ''a@b.c'', user_name = ''John Doe'',
           user_plan = ''trial'', user_credits = 50, user_trialEnds = 1209601000\<rparr>"]
    navigation_iff_user[of app_init] u n
  show ?thesis
    by (simp add: p)
qed

subsection \<open>A failed Google login\<close>

text \<open>
  C9. When the request of the Google login fails (the \<open>fetch\<close> rejects, the response is not
  ok, or its body cannot be read), the handler changes no state cell and only logs the
  error: \<open>login\<close> is not called (the loading flag and the pending tasks stay as they are,
  apart from the settled request), the user record and the visibility of the modal are
  what they were. \<open>onError\<close> only logs.
\<close>

theorem failed_google_login_changes_nothing:
  assumes "login_failed outcome"
  shows "googleOnSuccess_settled outcome s = (s, [ConsoleError ''Google login error:''])
    \<and> googleOnError s = (s, [ConsoleLog ''Google Login Failed''])
    \<and> (i < length (tasks s) \<and> tasks s ! i = LoginFetch \<longrightarrow>
         handle (FetchSettles i outcome) s = (drop_task i s, [ConsoleError ''Google login error:'']) \<and>
         user (fst (fire (FetchSettles i outcome) s)) = user s \<and>
         loading (fst (fire (FetchSettles i outcome) s)) = loading s \<and>
         showAuthModal (fst (fire (FetchSettles i outcome) s)) = showAuthModal s \<and>
         tasks (fst (fire (FetchSettles i outcome) s)) = take i (tasks s) @ drop (Suc i) (tasks s))"
proof -
  from assms have a: "googleOnSuccess_settled outcome t = (t, [ConsoleError ''Google login error:''])" for t
    by (cases outcome) (auto simp: googleOnSuccess_settled_def split: if_splits)
  have b: "googleOnError s = (s, [ConsoleLog ''Google Login Failed''])"
    by (simp add: googleOnError_def)
  have c: "handle (FetchSettles i outcome) s = (drop_task i s, [ConsoleError ''Google login error:''])"
    if "i < length (tasks s) \<and> tasks s ! i = LoginFetch"
    using that by (simp add: a)
  show ?thesis
    using a[of s] b c
    by (auto simp: fire_def render_def mounts_def animate_presence_def drop_task_def)
qed

theorem failed_google_login_changes_nothing_witness:
  "login_failed (Responded False None) \<and>
   tasks example_pending = [LoginFetch] \<and>
   user example_pending = None \<and> showAuthModal example_pending \<and>
   user (fst (fire (FetchSettles 0 (Responded False None)) example_pending)) = None \<and>
   showAuthModal (fst (fire (FetchSettles 0 (Responded False None)) example_pending)) \<and>
   \<not> loading (fst (fire (FetchSettles 0 (Responded False None)) example_pending)) \<and>
   tasks (fst (fire (FetchSettles 0 (Responded False None)) example_pending)) = []"
proof -
  have f: "login_failed (Responded False None)" by simp
  have t: "tasks example_pending = [LoginFetch]"
    and u: "user example_pending = None"
    and m: "showAuthModal example_pending"
    and l: "\<not> loading example_pending"
    by (simp_all add: example_pending_def model_defs)
  from failed_google_login_changes_nothing[OF f, of example_pending 0] t u m l
  show ?thesis by simp
qed

subsection \<open>A signed-in user and the landing page\<close>

lemma landing_not_selected: "user s \<noteq> None \<Longrightarrow> LandingView \<notin> set (page_children s)"
  by (simp add: page_children_def)

lemma page_effect_settled:
  "user (page_effect s) \<noteq> None \<Longrightarrow> currentPage (page_effect s) \<noteq> ''landing''"
  by (auto simp: page_effect_def split: if_splits)

lemma run_settled:
  "user s \<noteq> None \<longrightarrow> currentPage s \<noteq> ''landing'' \<Longrightarrow>
   user (run es s) \<noteq> None \<longrightarrow> currentPage (run es s) \<noteq> ''landing''"
proof (induction es arbitrary: s)
  case Nil
  then show ?case by simp
next
  case (Cons e es)
  have "user (render (page_effect (fst (fire e s)))) \<noteq> None \<longrightarrow>
      currentPage (render (page_effect (fst (fire e s)))) \<noteq> ''landing''"
    using page_effect_settled[of "fst (fire e s)"] by (simp add: user_render currentPage_render)
  from Cons.IH[OF this] show ?case by simp
qed

text \<open>While a user stays present the landing view does not come back into the document.\<close>

lemma landing_stays_away:
  assumes "LandingView \<notin> set (presented s)" and "user (fst (handle e s)) \<noteq> None"
    and "user s \<noteq> None"
  shows "LandingView \<notin> set (presented (fst (fire e s)))"
proof -
  let ?t = "fst (handle e s)"
  from assms(1) landing_not_selected[OF assms(3)] have "LandingView \<notin> set (presented ?t)"
    by (simp add: presented_handle)
  then have "LandingView \<notin> set (exiting ?t)" by (simp add: exiting_def)
  moreover from assms(2) have "LandingView \<notin> set (page_children ?t)" by (rule landing_not_selected)
  ultimately show ?thesis by (simp add: fire_def split_beta presented_render)
qed

text \<open>
  C10, as amended. In every reachable state with a user the landing view is not selected
  for rendering; if it is still in the document it is there as the exiting child of
  \<open>AnimatePresence\<close>, it is gone when its exit animation has completed, and no event after
  which a user is present brings it back. When a user is present while \<open>currentPage\<close> is
  \<open>landing\<close>, the effect sets \<open>currentPage\<close> to \<open>dashboard\<close>, and the dashboard is in the
  document once the exit has completed; this is the case when a login timer fires on the
  landing page. After every run in which the effect has been run after each event, a user
  is not on the landing page.
\<close>

theorem signed_in_never_sees_landing:
  "(reachable s \<longrightarrow> user s \<noteq> None \<longrightarrow>
      LandingView \<notin> set (page_children s) \<and>
      (LandingView \<in> set (presented s) \<longrightarrow> exiting s = [LandingView]) \<and>
      LandingView \<notin> set (presented (fst (fire ExitComplete s))))
   \<and> (user s \<noteq> None \<and> LandingView \<notin> set (presented s) \<and> user (fst (fire e s)) \<noteq> None \<longrightarrow>
        LandingView \<notin> set (presented (fst (fire e s))))
   \<and> (user s \<noteq> None \<and> currentPage s = ''landing'' \<longrightarrow>
        currentPage (page_effect s) = ''dashboard'' \<and>
        user (page_effect s) = user s \<and>
        page_children (page_effect s) = [DashboardView] \<and>
        presented (fst (fire ExitComplete (render (page_effect s)))) = [DashboardView])
   \<and> (i < length (tasks s) \<and> tasks s ! i = LoginTimer data \<and> data \<noteq> JNull \<and> data \<noteq> JUndefined \<and>
       currentPage s = ''landing'' \<longrightarrow>
        user (fst (fire (LoginTimerFires i now) s)) \<noteq> None \<and>
        currentPage (page_effect (fst (fire (LoginTimerFires i now) s))) = ''dashboard'')
   \<and> (user (run es app_init) \<noteq> None \<longrightarrow> currentPage (run es app_init) \<noteq> ''landing'')"
proof (intro conjI impI)
  assume r: "reachable s" and u: "user s \<noteq> None"
  from u show n: "LandingView \<notin> set (page_children s)" by (rule landing_not_selected)
  {
    assume p: "LandingView \<in> set (presented s)"
    with n have "exiting s \<noteq> []" by (auto simp: exiting_def filter_empty_conv)
    with reachable_presented[OF r] have "presented s = exiting s"
      by (intro exiting_all) simp_all
    moreover from reachable_presented[OF r] p have "presented s = [LandingView]"
      by (cases "presented s") auto
    ultimately show "exiting s = [LandingView]" by simp
  }
  from n show "LandingView \<notin> set (presented (fst (fire ExitComplete s)))"
    by (simp add: presented_exit_complete)
next
  assume a: "user s \<noteq> None \<and> LandingView \<notin> set (presented s) \<and> user (fst (fire e s)) \<noteq> None"
  then have "user (fst (handle e s)) \<noteq> None"
    by (simp add: fire_def split_beta user_render)
  with a show "LandingView \<notin> set (presented (fst (fire e s)))"
    by (intro landing_stays_away) simp_all
next
  assume a: "user s \<noteq> None \<and> currentPage s = ''landing''"
  then show "currentPage (page_effect s) = ''dashboard''"
    by (simp add: page_effect_def)
  from a show "user (page_effect s) = user s"
    by (simp add: page_effect_def)
  from a show c: "page_children (page_effect s) = [DashboardView]"
    by (simp add: page_effect_def page_children_def)
  then show "presented (fst (fire ExitComplete (render (page_effect s)))) = [DashboardView]"
    by (simp add: presented_exit_complete page_children_render)
next
  assume a: "i < length (tasks s) \<and> tasks s ! i = LoginTimer data \<and> data \<noteq> JNull \<and>
    data \<noteq> JUndefined \<and> currentPage s = ''landing''"
  then obtain em where em: "js_get ''email'' data = Inr em"
    using js_get_defined by blast
  with a show u: "user (fst (fire (LoginTimerFires i now) s)) \<noteq> None"
    by (simp add: fire_def login_timeout_def user_render)
  from a em have "currentPage (fst (fire (LoginTimerFires i now) s)) = ''landing''"
    by (simp add: fire_def login_timeout_def drop_task_def currentPage_render)
  with u show "currentPage (page_effect (fst (fire (LoginTimerFires i now) s))) = ''dashboard''"
    by (simp add: page_effect_def)
next
  assume "user (run es app_init) \<noteq> None"
  moreover have "user app_init \<noteq> None \<longrightarrow> currentPage app_init \<noteq> ''landing''"
    by (simp add: app_init_def)
  ultimately show "currentPage (run es app_init) \<noteq> ''landing''"
    using run_settled[of app_init es] by blast
qed

theorem signed_in_never_sees_landing_witness:
  "reachable (fst (fire (LoginTimerFires 0 1000) example_signing_in)) \<and>
   tasks example_signing_in = [LoginTimer (JObj [(''email'', JStr ''a@b.c'')])] \<and>
   currentPage example_signing_in = ''landing'' \<and>
   user (fst (fire (LoginTimerFires 0 1000) example_signing_in)) \<noteq> None \<and>
   currentPage (fst (fire (LoginTimerFires 0 1000) example_signing_in)) = ''landing'' \<and>
   LandingView \<notin> set (page_children (fst (fire (LoginTimerFires 0 1000) example_signing_in))) \<and>
   LandingView \<in> set (presented (fst (fire (LoginTimerFires 0 1000) example_signing_in))) \<and>
   exiting (fst (fire (LoginTimerFires 0 1000) example_signing_in)) = [LandingView] \<and>
   currentPage (page_effect (fst (fire (LoginTimerFires 0 1000) example_signing_in))) = ''dashboard'' \<and>
   user (run example_login app_init) \<noteq> None \<and>
   LandingView \<notin> set (presented (run example_login app_init)) \<and>
   user (fst (fire ClickNavUpload (run example_login app_init))) \<noteq> None \<and>
   LandingView \<notin> set (presented (fst (fire ClickNavUpload (run example_login app_init)))) \<and>
   currentPage (run example_login app_init) \<noteq> ''landing''"
proof -
  let ?s1 = "fst (fire (LoginTimerFires 0 1000) example_signing_in)"
  let ?s2 = "run example_login app_init"
  have r0: "reachable example_signing_in"
    unfolding example_signing_in_def by (rule reachable_run) (rule reachable.start)
  then have r: "reachable ?s1" by (rule reachable.event)
  have t: "tasks example_signing_in = [LoginTimer (JObj [(''email'', JStr ''a@b.c'')])]"
    and p: "currentPage example_signing_in = ''landing''"
    by (simp_all add: example_signing_in_def model_defs)
  have p1: "currentPage ?s1 = ''landing''" and q1: "LandingView \<in> set (presented ?s1)"
    by (simp_all add: example_signing_in_def model_defs)
  have u2: "user ?s2 \<noteq> None" and q2: "LandingView \<notin> set (presented ?s2)"
    and u3: "user (fst (fire ClickNavUpload ?s2)) \<noteq> None"
    by (simp_all add: example_login_def example_signin_def model_defs)
  from signed_in_never_sees_landing[of example_signing_in ClickSignIn 0
      "JObj [(''email'', JStr ''a@b.c'')]" 1000 example_login]
    signed_in_never_sees_landing[of ?s1 ClickSignIn 0 JNull 0 example_login]
    signed_in_never_sees_landing[of ?s2 ClickNavUpload 0 JNull 0 example_login]
    r t p p1 q1 u2 q2 u3
  show ?thesis by simp
qed

text \<open>
  C10 as stated fails while the landing page plays its exit animation: when the login
  timer has fired, a user is present and the landing view is still in the document, and
  its Sign In button still opens the modal.
\<close>

theorem signed_in_sees_landing_counterexample:
  "reachable (fst (fire (LoginTimerFires 0 1000) example_signing_in)) \<and>
   user (fst (fire (LoginTimerFires 0 1000) example_signing_in)) \<noteq> None \<and>
   LandingView \<in> set (presented (fst (fire (LoginTimerFires 0 1000) example_signing_in))) \<and>
   \<not> showAuthModal (fst (fire (LoginTimerFires 0 1000) example_signing_in)) \<and>
   showAuthModal (fst (fire ClickSignIn (fst (fire (LoginTimerFires 0 1000) example_signing_in)))) \<and>
   user (run example_signin app_init) \<noteq> None \<and>
   LandingView \<in> set (presented (run example_signin app_init))"
proof -
  have "reachable example_signing_in"
    unfolding example_signing_in_def by (rule reachable_run) (rule reachable.start)
  then have "reachable (fst (fire (LoginTimerFires 0 1000) example_signing_in))"
    by (rule reachable.event)
  then show ?thesis
    by (simp add: example_signing_in_def example_signin_def model_defs)
qed

end
